(* ===== verification/Prelude.thy ===== *)
theory Prelude
  imports Main "HOL-Library.Word"
begin

text \<open>
  Shared vocabulary of the development: the machine types of the C++ sources, the outcome of
  code that can run into undefined behaviour or an uncaught exception, the reading of raw
  memory, the overwriting of fixed buffers, and the big-endian integer fields that every
  message of the wire protocol is made of. The lemmas here are about lists, words and
  outcomes only; no component of the program is modelled in this theory.
\<close>

unbundle bit_operations_syntax

section \<open>Types\<close>

type_synonym u8 = "8 word"
type_synonym u16 = "16 word"
type_synonym u32 = "32 word"
type_synonym u64 = "64 word"

text \<open>A \<open>std::string\<close> and a \<open>std::vector<uint8_t>\<close> are both sequences of bytes.\<close>

type_synonym bytes = "u8 list"

text \<open>
  What can stop a C++ function from returning: a read or write outside an object, the use of
  a variable that was never written, an exception that no handler catches (the functions
  run on the \<open>io\<close> thread, so \<open>std::terminate\<close> is called), a loop that does not end, a
  conversion of a floating-point number to an integer type that cannot hold it, and the overflow of
  a signed integer.
\<close>

datatype fault = OutOfBounds | Uninitialised | Uncaught | Diverges | BadConversion | Overflow

type_synonym 'a run = "fault + 'a"

named_theorems run_simps

section \<open>Sequencing of outcomes\<close>

definition andThen :: "'a run \<Rightarrow> ('a \<Rightarrow> 'b run) \<Rightarrow> 'b run" where
  "andThen m f = (case m of Inl e \<Rightarrow> Inl e | Inr x \<Rightarrow> f x)"

text \<open>Using a variable that may not have been written.\<close>

definition initialised :: "'a option \<Rightarrow> 'a run" where
  "initialised v = (case v of None \<Rightarrow> Inl Uninitialised | Some x \<Rightarrow> Inr x)"

section \<open>Raw memory\<close>

text \<open>
  A pointer into an object is modelled by the bytes from that position to the end of the
  object. \<open>peek\<close> is one read \<open>data[i]\<close>, \<open>peeks\<close> the reads of a copy loop over \<open>n\<close>
  consecutive positions.
\<close>

definition peek :: "bytes \<Rightarrow> nat \<Rightarrow> u8 run" where
  "peek data i = (if i < length data then Inr (data ! i) else Inl OutOfBounds)"

definition peeks :: "bytes \<Rightarrow> nat \<Rightarrow> nat \<Rightarrow> bytes run" where
  "peeks data i n = (if i + n \<le> length data then Inr (take n (drop i data)) else Inl OutOfBounds)"

text \<open>Writing \<open>bs\<close> at position \<open>i\<close> of a fixed-size buffer.\<close>

definition overwrite :: "nat \<Rightarrow> bytes \<Rightarrow> bytes \<Rightarrow> bytes" where
  "overwrite i bs buf = take i buf @ bs @ drop (i + length bs) buf"

definition poke :: "nat \<Rightarrow> bytes \<Rightarrow> bytes \<Rightarrow> bytes run" where
  "poke i bs buf =
     (if i + length bs \<le> length buf then Inr (overwrite i bs buf) else Inl OutOfBounds)"

section \<open>Big-endian integer fields\<close>

text \<open>
  The serialisers push the bytes of an integer with the loop
  \<^verbatim>\<open>for (int i = 0; i < n; i++) buffer.push_back((x >> (8 * (n - 1) - 8 * i)) & 0xFF);\<close>
  and the deserialisers rebuild it with
  \<^verbatim>\<open>for (int i = 0; i < n; i++) { T temp = data[i]; temp <<= (8 * (n - 1) - 8 * i); x = x | temp; }\<close>
\<close>

definition put_be :: "nat \<Rightarrow> 'a::len word \<Rightarrow> bytes" where
  "put_be n x = map (\<lambda>i. ucast (drop_bit (8 * (n - 1) - 8 * i) x AND 0xFF)) [0..<n]"

definition get_be :: "bytes \<Rightarrow> 'a::len word" where
  "get_be bs =
     fold (\<lambda>i x. x OR push_bit (8 * (length bs - 1) - 8 * i) (ucast (bs ! i)))
       [0..<length bs] 0"

definition peek_be :: "nat \<Rightarrow> bytes \<Rightarrow> nat \<Rightarrow> 'a::len word run" where
  "peek_be n data i = andThen (peeks data i n) (\<lambda>bs. Inr (get_be bs))"

section \<open>Lemmas on outcomes\<close>

lemma andThen_simps [simp]: "andThen (Inr x) f = f x" "andThen (Inl e) f = Inl e"
  by (simp_all add: andThen_def)

lemma andThen_eq_Inr [run_simps]:
  "andThen m f = Inr y \<longleftrightarrow> (\<exists>x. m = Inr x \<and> f x = Inr y)"
  by (cases m) auto

lemma andThen_eq_Inl [run_simps]:
  "andThen m f = Inl e \<longleftrightarrow> m = Inl e \<or> (\<exists>x. m = Inr x \<and> f x = Inl e)"
  by (cases m) auto

lemma andThen_assoc: "andThen (andThen m f) g = andThen m (\<lambda>x. andThen (f x) g)"
  by (cases m) auto

lemma initialised_simps [simp]:
  "initialised (Some x) = Inr x" "initialised None = Inl Uninitialised"
  by (simp_all add: initialised_def)

lemma initialised_eq_Inr [simp]: "initialised v = Inr x \<longleftrightarrow> v = Some x"
  by (cases v) auto

section \<open>Lemmas on memory\<close>

lemma peek_in [simp]: "i < length data \<Longrightarrow> peek data i = Inr (data ! i)"
  by (simp add: peek_def)

lemma peek_eq_Inr [run_simps]: "peek data i = Inr b \<longleftrightarrow> i < length data \<and> b = data ! i"
  by (auto simp: peek_def)

lemma peeks_in: "i + n \<le> length data \<Longrightarrow> peeks data i n = Inr (take n (drop i data))"
  by (simp add: peeks_def)

lemma peeks_eq_Inr [run_simps]:
  "peeks data i n = Inr bs \<longleftrightarrow> i + n \<le> length data \<and> bs = take n (drop i data)"
  by (auto simp: peeks_def)

text \<open>A field read at the place where it was written.\<close>

lemma peeks_field:
  "i = length xs \<Longrightarrow> n = length bs \<Longrightarrow> peeks (xs @ bs @ ys) i n = Inr bs"
  by (simp add: peeks_def)

lemma peeks_append_right:
  "length xs \<le> i \<Longrightarrow> peeks (xs @ ys) i n = peeks ys (i - length xs) n"
  by (auto simp: peeks_def)

lemma peek_append_right:
  "length xs \<le> i \<Longrightarrow> peek (xs @ ys) i = peek ys (i - length xs)"
  by (auto simp: peek_def nth_append)

lemma peeks_zero_append: "n = length bs \<Longrightarrow> peeks (bs @ ys) 0 n = Inr bs"
  by (simp add: peeks_def)

lemma length_field: "i + n \<le> length data \<Longrightarrow> length (take n (drop i data)) = n"
  by simp

lemma take_is_prefix_ex: "\<exists>rest. data = take n data @ rest"
  using append_take_drop_id [of n data] by metis

lemma length_overwrite [simp]:
  "i + length bs \<le> length buf \<Longrightarrow> length (overwrite i bs buf) = length buf"
  by (simp add: overwrite_def)

lemma take_overwrite [simp]:
  "n = length bs \<Longrightarrow> take n (overwrite 0 bs buf) = bs"
  by (simp add: overwrite_def)

lemma drop_overwrite:
  "i \<le> length buf \<Longrightarrow> drop i (overwrite i bs buf) = bs @ drop (i + length bs) buf"
  by (simp add: overwrite_def)

lemma overwrite_0: "overwrite 0 bs buf = bs @ drop (length bs) buf"
  by (simp add: overwrite_def)

lemma poke_in [simp]:
  "i + length bs \<le> length buf \<Longrightarrow> poke i bs buf = Inr (overwrite i bs buf)"
  by (simp add: poke_def)

lemma poke_eq_Inr [run_simps]:
  "poke i bs buf = Inr b \<longleftrightarrow> i + length bs \<le> length buf \<and> b = overwrite i bs buf"
  by (auto simp: poke_def)

section \<open>Lemmas on words\<close>

lemma xor_twice: "((a :: 'a::len word) XOR c) XOR c = a"
  by (simp add: xor.assoc)

lemma xor_cancel_right [simp]: "(a :: 'a::len word) XOR c = b XOR c \<longleftrightarrow> a = b"
  by (metis xor_twice)

lemma xor_cancel_left [simp]: "c XOR (a :: 'a::len word) = c XOR b \<longleftrightarrow> a = b"
  using xor_cancel_right [of a c b] by (simp only: xor.commute)

lemma bit_lt_length: "bit (w :: 'a::len word) k \<Longrightarrow> k < LENGTH('a)"
  by (rule bit_imp_le_length)

lemma unat_u8_less [simp]: "unat (i :: u8) < 256"
  using unsigned_less [of i] by simp

lemma unat_u16_less [simp]: "unat (i :: u16) < 65536"
  using unsigned_less [of i] by simp

lemma unat_of_nat_16: "n < 65536 \<Longrightarrow> unat (of_nat n :: u16) = n"
  by (simp add: unsigned_of_nat take_bit_nat_eq_self)

lemma unat_of_nat_32: "n < 4294967296 \<Longrightarrow> unat (of_nat n :: u32) = n"
  by (simp add: unsigned_of_nat take_bit_nat_eq_self)

section \<open>Lemmas on big-endian fields\<close>

lemma length_put_be [simp]: "length (put_be n x) = n"
  by (simp add: put_be_def)

lemma bit_low_byte:
  "bit (ucast ((w :: 'a::len word) AND 0xFF) :: u8) j \<longleftrightarrow> j < 8 \<and> bit w j"
proof -
  have "(0xFF :: 'a word) = mask 8" by (simp add: mask_eq_exp_minus_1)
  then have "w AND 0xFF = take_bit 8 w" by (simp add: take_bit_eq_mask)
  then show ?thesis by (auto simp: bit_simps dest: bit_imp_le_length)
qed

lemma bit_put_be_nth:
  "i < n \<Longrightarrow> bit (put_be n (x :: 'a::len word) ! i) j \<longleftrightarrow> j < 8 \<and> bit x (8 * (n - 1 - i) + j)"
  by (simp only: put_be_def length_upt nth_map nth_upt bit_low_byte)
    (simp add: bit_simps diff_mult_distrib2 right_diff_distrib')

lemma bit_or_fold:
  "bit (fold (\<lambda>i x. x OR f i) is (a :: 'a::len word)) k \<longleftrightarrow> bit a k \<or> (\<exists>i \<in> set is. bit (f i) k)"
  by (induction "is" arbitrary: a) (auto simp: bit_simps)

lemma byte_index_iff: "8 * m \<le> k \<and> k - 8 * m < 8 \<longleftrightarrow> m = k div (8 :: nat)"
  by linarith

lemma byte_index_mod: "m = k div 8 \<Longrightarrow> k - 8 * m = k mod (8 :: nat)"
  by (simp add: minus_mult_div_eq_mod)

lemma bit_get_be:
  assumes len: "LENGTH('a) = 8 * length bs"
  shows "bit (get_be bs :: 'a::len word) k \<longleftrightarrow>
    k < LENGTH('a) \<and> bit (bs ! (length bs - 1 - k div 8)) (k mod 8)"
proof -
  let ?n = "length bs"
  have *: "bit (push_bit (8 * (?n - 1) - 8 * i) (ucast (bs ! i) :: 'a word)) k \<longleftrightarrow>
      i = ?n - 1 - k div 8 \<and> bit (bs ! i) (k mod 8)" if "i < ?n" and k: "k < LENGTH('a)" for i
  proof -
    have s: "8 * (?n - 1) - 8 * i = 8 * (?n - 1 - i)" by (simp add: diff_mult_distrib2)
    have kn: "k div 8 < ?n" using k len by (simp add: less_mult_imp_div_less mult.commute)
    have "bit (push_bit (8 * (?n - 1 - i)) (ucast (bs ! i) :: 'a word)) k \<longleftrightarrow>
        8 * (?n - 1 - i) \<le> k \<and> k - 8 * (?n - 1 - i) < 8 \<and> bit (bs ! i) (k - 8 * (?n - 1 - i))"
      using k by (auto simp: bit_simps dest: bit_imp_le_length)
    also have "\<dots> \<longleftrightarrow> ?n - 1 - i = k div 8 \<and> bit (bs ! i) (k mod 8)"
      using byte_index_iff [of "?n - 1 - i" k] byte_index_mod [of "?n - 1 - i" k] by auto
    also have "?n - 1 - i = k div 8 \<longleftrightarrow> i = ?n - 1 - k div 8"
      using that(1) kn by linarith
    finally show ?thesis by (simp only: s)
  qed
  show ?thesis
  proof (cases "k < LENGTH('a)")
    case True
    then have "k div 8 < ?n" using len by (simp add: less_mult_imp_div_less mult.commute)
    then have "?n - 1 - k div 8 < ?n" by simp
    moreover have "bit (get_be bs :: 'a word) k \<longleftrightarrow>
        (\<exists>i \<in> {0..<?n}. i = ?n - 1 - k div 8 \<and> bit (bs ! i) (k mod 8))"
      unfolding get_be_def bit_or_fold set_upt using * [OF _ True] by auto
    ultimately show ?thesis using True by auto
  next
    case False
    then show ?thesis by (simp add: impossible_bit)
  qed
qed

lemma get_be_put_be [simp]:
  assumes "LENGTH('a) = 8 * n"
  shows "get_be (put_be n x) = (x :: 'a::len word)"
proof (rule bit_word_eqI)
  fix k assume k: "k < LENGTH('a)"
  then have "k div 8 < n" using assms by (simp add: less_mult_imp_div_less mult.commute)
  then have "n - 1 - (n - 1 - k div 8) = k div 8" and "n - 1 - k div 8 < n" by simp_all
  with k assms show "bit (get_be (put_be n x) :: 'a word) k = bit x k"
    by (simp add: bit_get_be bit_put_be_nth)
qed

lemma put_be_get_be:
  assumes "LENGTH('a) = 8 * n" and "length bs = n"
  shows "put_be n (get_be bs :: 'a::len word) = bs"
proof (rule nth_equalityI)
  show "length (put_be n (get_be bs :: 'a word)) = length bs" using assms by simp
  fix i assume "i < length (put_be n (get_be bs :: 'a word))"
  then have i: "i < n" by simp
  show "put_be n (get_be bs :: 'a word) ! i = bs ! i"
  proof (rule bit_word_eqI)
    fix j assume "j < LENGTH(8)"
    then have j: "j < 8" by simp
    have "8 * (n - 1 - i) + j < 8 * n" and "(8 * (n - 1 - i) + j) div 8 = n - 1 - i"
      and "(8 * (n - 1 - i) + j) mod 8 = j" and "n - 1 - (n - 1 - i) = i"
      using i j by simp_all
    with assms i j show "bit (put_be n (get_be bs :: 'a word) ! i) j = bit (bs ! i) j"
      by (simp add: bit_put_be_nth bit_get_be)
  qed
qed

lemma put_be_inject:
  assumes "LENGTH('a) = 8 * n"
  shows "put_be n x = put_be n y \<longleftrightarrow> x = (y :: 'a::len word)"
  using get_be_put_be [OF assms] by metis

lemma get_be_inject:
  assumes "LENGTH('a) = 8 * n" and "length bs = n" and "length cs = n"
  shows "get_be bs = (get_be cs :: 'a::len word) \<longleftrightarrow> bs = cs"
  using put_be_get_be [OF assms(1,2)] put_be_get_be [OF assms(1,3)] by metis

text \<open>The three field widths of the protocol.\<close>

lemma get_put_widths [simp]:
  "get_be (put_be 2 (x16 :: u16)) = x16"
  "get_be (put_be 4 (x32 :: u32)) = x32"
  "get_be (put_be 8 (x64 :: u64)) = x64"
  by simp_all

lemma put_get_widths:
  "length bs = 2 \<Longrightarrow> put_be 2 (get_be bs :: u16) = bs"
  "length bs = 4 \<Longrightarrow> put_be 4 (get_be bs :: u32) = bs"
  "length bs = 8 \<Longrightarrow> put_be 8 (get_be bs :: u64) = bs"
  by (simp_all add: put_be_get_be)

lemma get_be_inject_32:
  "length bs = 4 \<Longrightarrow> length cs = 4 \<Longrightarrow> get_be bs = (get_be cs :: u32) \<longleftrightarrow> bs = cs"
  by (rule get_be_inject [where n = 4]) simp_all

lemma put_be_length16:
  "put_be 2 (of_nat n :: u64) = put_be 2 (of_nat n :: u16)"
proof (rule nth_equalityI)
  fix i assume "i < length (put_be 2 (of_nat n :: u64))"
  then have i: "i < 2" by simp
  show "put_be 2 (of_nat n :: u64) ! i = put_be 2 (of_nat n :: u16) ! i"
    by (rule bit_word_eqI) (use i in \<open>auto simp: bit_put_be_nth bit_of_nat_iff_bit bit_simps\<close>)
qed simp

end
