(* ===== verification/Crc32.thy ===== *)
theory Crc32
  imports Prelude
begin

text \<open>
  The checksum of \<open>src/src/core/protocol.cpp\<close>: the table-driven CRC-32 with its two static
  variables. The lemmas show that the value does not depend on what the static variables held,
  that the table-driven loop computes the bit-by-bit CRC, and that changing the bytes of a
  message inside a window of four consecutive bytes always changes the checksum.
\<close>

unbundle bit_operations_syntax

section \<open>The function as the code has it\<close>

definition POLYNOMIAL :: u32 where
  "POLYNOMIAL = 0xEDB88320"

text \<open>The inner loop \<open>for (int j = 0; j < 8; j++)\<close> of the table construction.\<close>

fun crc_bits :: "nat \<Rightarrow> u32 \<Rightarrow> u32" where
  "crc_bits 0 stored_crc = stored_crc"
| "crc_bits (Suc j) stored_crc =
     crc_bits j (if stored_crc AND 1 \<noteq> 0 then drop_bit 1 stored_crc XOR POLYNOMIAL
                 else drop_bit 1 stored_crc)"

definition build_crc_table :: "u32 list" where
  "build_crc_table = map (\<lambda>i. crc_bits 8 (of_nat i)) [0..<256]"

text \<open>The static variables \<open>crc_table\<close> and \<open>crc_table_ready\<close>, zero-initialised.\<close>

record crc_state =
  crc_table :: "u32 list"
  crc_table_ready :: bool

definition crc_statics :: crc_state where
  "crc_statics = \<lparr>crc_table = replicate 256 0, crc_table_ready = False\<rparr>"

fun crc_loop :: "u32 list \<Rightarrow> bytes \<Rightarrow> u32 \<Rightarrow> u32" where
  "crc_loop table [] crc = crc"
| "crc_loop table (d # ds) crc =
     (let index = (ucast ((crc XOR ucast d) AND 0xFF) :: u8)
      in crc_loop table ds (drop_bit 8 crc XOR table ! unat index))"

text \<open>
  One call of \<open>crc32(data, len)\<close>: the table is built when \<open>crc_table_ready\<close> is not set
  (no line of the function sets it), then the bytes are folded in. Both callers pass at least
  \<open>len\<close> readable bytes.
\<close>

definition crc32_call :: "crc_state \<Rightarrow> bytes \<Rightarrow> nat \<Rightarrow> u32 \<times> crc_state" where
  "crc32_call st data len =
     (let st' = (if \<not> crc_table_ready st then st\<lparr>crc_table := build_crc_table\<rparr> else st)
      in (crc_loop (crc_table st') (take len data) 0xFFFFFFFF XOR 0xFFFFFFFF, st'))"

definition crc32 :: "bytes \<Rightarrow> nat \<Rightarrow> u32" where
  "crc32 data len = fst (crc32_call crc_statics data len)"

section \<open>The bit-by-bit reference\<close>

definition crc_ref :: "bytes \<Rightarrow> u32 \<Rightarrow> u32" where
  "crc_ref ds crc = fold (\<lambda>d c. crc_bits 8 (c XOR ucast d)) ds crc"

text \<open>The bytes of a window as one little-endian number.\<close>

fun window :: "bytes \<Rightarrow> u32" where
  "window [] = 0"
| "window (d # ds) = ucast d XOR push_bit 8 (window ds)"

section \<open>The bit step is linear and injective\<close>

definition crc_bit :: "u32 \<Rightarrow> u32" where
  "crc_bit c = (if c AND 1 \<noteq> 0 then drop_bit 1 c XOR POLYNOMIAL else drop_bit 1 c)"

lemma crc_bits_Suc: "crc_bits (Suc j) c = crc_bits j (crc_bit c)"
  by (simp add: crc_bit_def)

declare crc_bits.simps(2) [simp del]

lemma and_one_bit: "(c :: u32) AND 1 \<noteq> 0 \<longleftrightarrow> bit c 0"
  by (simp add: and_one_eq bit_0 odd_iff_mod_2_eq_one)

lemma crc_bit_xor: "crc_bit (x XOR y) = crc_bit x XOR crc_bit y"
proof -
  have "bit (x XOR y) 0 \<longleftrightarrow> bit x 0 \<noteq> bit y 0" by (simp add: bit_simps)
  then show ?thesis
    by (auto simp: crc_bit_def and_one_bit drop_bit_xor xor.assoc xor.left_commute xor.commute)
qed

lemma crc_bits_xor: "crc_bits n (x XOR y) = crc_bits n x XOR crc_bits n y"
  by (induction n arbitrary: x y) (simp_all add: crc_bits_Suc crc_bit_xor)

lemma crc_bits_add: "crc_bits (m + n) c = crc_bits n (crc_bits m c)"
  by (induction m arbitrary: c) (simp_all add: crc_bits_Suc)

lemma crc_bits_shift:
  "take_bit n c = 0 \<Longrightarrow> crc_bits n c = drop_bit n c"
proof (induction n arbitrary: c)
  case (Suc n)
  have low: "\<not> bit c k" if "k < Suc n" for k
    using Suc.prems that by (metis bit_0_eq bit_take_bit_iff bot_apply bot_bool_def)
  have "crc_bit c = drop_bit 1 c"
    using low [of 0] by (simp add: crc_bit_def and_one_bit)
  moreover have "take_bit n (drop_bit 1 c) = 0"
    by (rule bit_word_eqI) (auto simp: bit_simps low)
  ultimately show ?case
    using Suc.IH [of "drop_bit 1 c"] by (simp add: crc_bits_Suc)
qed simp

lemma POLYNOMIAL_top: "bit POLYNOMIAL 31"
  by (simp add: POLYNOMIAL_def)

lemma crc_bit_top: "bit (crc_bit c) 31 \<longleftrightarrow> bit c 0"
proof -
  have "\<not> bit (drop_bit 1 c) 31" by (auto simp: bit_simps dest: bit_imp_le_length)
  then show ?thesis by (simp add: crc_bit_def and_one_bit bit_xor_iff POLYNOMIAL_top)
qed

lemma crc_bit_inject: "crc_bit x = crc_bit y \<longleftrightarrow> x = y"
proof
  assume eq: "crc_bit x = crc_bit y"
  then have low: "bit x 0 = bit y 0" by (metis crc_bit_top)
  then have "drop_bit 1 x = drop_bit 1 y"
    using eq by (auto simp: crc_bit_def and_one_bit split: if_splits)
  show "x = y"
  proof (rule bit_word_eqI)
    fix k assume "k < LENGTH(32)"
    show "bit x k = bit y k"
    proof (cases k)
      case (Suc j)
      have "bit (drop_bit 1 x) j = bit (drop_bit 1 y) j"
        using \<open>drop_bit 1 x = drop_bit 1 y\<close> by simp
      with Suc show ?thesis by (simp add: bit_simps)
    qed (simp add: low)
  qed
qed simp

lemma crc_bits_inject: "crc_bits n x = crc_bits n y \<longleftrightarrow> x = y"
  by (induction n arbitrary: x y) (simp_all add: crc_bits_Suc crc_bit_inject)

section \<open>Table-driven loop and reference agree\<close>

lemma build_crc_table_nth: "build_crc_table ! unat (i :: u8) = crc_bits 8 (ucast i)"
proof -
  have "(of_nat (unat i) :: u32) = ucast i" by simp
  then show ?thesis by (simp add: build_crc_table_def del: of_nat_unat)
qed

lemma crc_bits_8_split:
  "crc_bits 8 x = drop_bit 8 x XOR crc_bits 8 (x AND 0xFF)"
proof -
  have m: "(0xFF :: u32) = mask 8" by (simp add: mask_eq_exp_minus_1)
  have "x = (x AND 0xFF) XOR push_bit 8 (drop_bit 8 x)"
    by (rule bit_word_eqI) (auto simp: m bit_simps dest: bit_lt_length)
  then have "crc_bits 8 x = crc_bits 8 (x AND 0xFF) XOR crc_bits 8 (push_bit 8 (drop_bit 8 x))"
    using crc_bits_xor by metis
  moreover have "crc_bits 8 (push_bit 8 (drop_bit 8 x)) = drop_bit 8 x"
  proof -
    have "take_bit 8 (push_bit 8 (drop_bit 8 x)) = 0" by (rule bit_word_eqI) (auto simp: bit_simps)
    moreover have "drop_bit 8 (push_bit 8 (drop_bit 8 x)) = drop_bit 8 x"
      by (rule bit_word_eqI) (auto simp: bit_simps dest: bit_lt_length)
    ultimately show ?thesis by (simp add: crc_bits_shift)
  qed
  ultimately show ?thesis by (simp add: xor.commute)
qed

lemma crc_table_step:
  fixes d :: u8
  shows "drop_bit 8 crc XOR build_crc_table ! unat (ucast ((crc XOR ucast d) AND 0xFF) :: u8)
     = crc_bits 8 (crc XOR ucast d)"
proof -
  let ?x = "crc XOR ucast d"
  have m: "(0xFF :: u32) = mask 8" by (simp add: mask_eq_exp_minus_1)
  have "ucast (ucast (?x AND 0xFF) :: u8) = ?x AND 0xFF"
    by (rule bit_word_eqI) (auto simp: m bit_simps)
  moreover have "drop_bit 8 ?x = drop_bit 8 crc"
    by (rule bit_word_eqI) (auto simp: bit_simps dest: bit_imp_le_length)
  ultimately show ?thesis
    by (simp only: build_crc_table_nth crc_bits_8_split [of ?x])
qed

lemma crc_loop_ref: "crc_loop build_crc_table ds crc = crc_ref ds crc"
  by (induction ds arbitrary: crc) (simp_all add: crc_ref_def Let_def crc_table_step)

lemma crc_ref_append: "crc_ref (xs @ ys) c = crc_ref ys (crc_ref xs c)"
  by (simp add: crc_ref_def)

lemma crc_ref_inject: "crc_ref ds c = crc_ref ds c' \<longleftrightarrow> c = c'"
proof (induction ds arbitrary: c c')
  case (Cons d ds)
  then show ?case by (simp add: crc_ref_def crc_bits_inject)
qed (simp add: crc_ref_def)

lemma crc32_alt: "crc32 data len = crc_ref (take len data) 0xFFFFFFFF XOR 0xFFFFFFFF"
  by (simp add: crc32_def crc32_call_def crc_statics_def crc_loop_ref)

section \<open>Windows of four bytes\<close>

lemma bit_window:
  "bit (window ds) k \<longleftrightarrow> k < 32 \<and> k div 8 < length ds \<and> bit (ds ! (k div 8)) (k mod 8)"
proof (induction ds arbitrary: k)
  case (Cons d ds)
  show ?case
  proof (cases "k < 8")
    case True
    then show ?thesis by (simp add: bit_simps)
  next
    case False
    then have split: "k div 8 = Suc ((k - 8) div 8)" "k mod 8 = (k - 8) mod 8"
      by (simp_all add: le_div_geq le_mod_geq)
    have "bit (window (d # ds)) k \<longleftrightarrow> k < 32 \<and> bit (window ds) (k - 8)"
      using False by (auto simp: bit_simps dest: bit_lt_length)
    then show ?thesis
      unfolding Cons.IH split by auto
  qed
qed simp

lemma window_shift:
  assumes "length ds \<le> 3"
  shows "crc_bits 8 (push_bit 8 (window ds)) = window ds"
proof -
  have "take_bit 8 (push_bit 8 (window ds)) = 0" by (rule bit_word_eqI) (auto simp: bit_simps)
  moreover have "drop_bit 8 (push_bit 8 (window ds)) = window ds"
  proof (rule bit_word_eqI)
    fix k assume "k < LENGTH(32)"
    have "k < 24" if "bit (window ds) k"
    proof -
      have "k div 8 < 3" using that assms by (simp add: bit_window)
      then show ?thesis by simp
    qed
    then show "bit (drop_bit 8 (push_bit 8 (window ds))) k = bit (window ds) k"
      by (auto simp: bit_simps)
  qed
  ultimately show ?thesis by (simp add: crc_bits_shift)
qed

lemma crc_ref_window:
  "length ws \<le> 4 \<Longrightarrow> crc_ref ws c = crc_bits (8 * length ws) (c XOR window ws)"
proof (induction ws arbitrary: c)
  case (Cons d ds)
  have "crc_ref (d # ds) c = crc_ref ds (crc_bits 8 (c XOR ucast d))"
    by (simp add: crc_ref_def)
  also have "\<dots> = crc_bits (8 * length ds) (crc_bits 8 (c XOR ucast d) XOR window ds)"
    using Cons by simp
  also have "crc_bits 8 (c XOR ucast d) XOR window ds = crc_bits 8 (c XOR window (d # ds))"
    using window_shift [of ds] Cons.prems by (simp add: crc_bits_xor xor.assoc)
  finally show ?case by (simp add: crc_bits_add [symmetric])
qed (simp add: crc_ref_def)

lemma window_inject:
  assumes "length ws = length ws'" and "length ws \<le> 4" and "window ws = window ws'"
  shows "ws = ws'"
proof (rule nth_equalityI)
  fix i assume i: "i < length ws"
  show "ws ! i = ws' ! i"
  proof (rule bit_word_eqI)
    fix j assume "j < LENGTH(8)"
    then have "(8 * i + j) div 8 = i" and "(8 * i + j) mod 8 = j" and "8 * i + j < 32"
      using i assms(2) by simp_all
    then show "bit (ws ! i) j = bit (ws' ! i) j"
      using assms i bit_window [of ws "8 * i + j"] bit_window [of ws' "8 * i + j"] by simp
  qed
qed (rule assms(1))

lemma crc_ref_window_differs:
  assumes "length ws = length ws'" and "length ws \<le> 4" and "ws \<noteq> ws'"
  shows "crc_ref (xs @ ws @ ys) c \<noteq> crc_ref (xs @ ws' @ ys) c"
proof -
  have "window ws \<noteq> window ws'" using assms window_inject by blast
  then have "crc_ref xs c XOR window ws \<noteq> crc_ref xs c XOR window ws'"
    by simp
  then show ?thesis
    using assms by (simp add: crc_ref_append crc_ref_inject crc_ref_window crc_bits_inject)
qed

lemma crc32_window_differs:
  assumes "length ws = length ws'" and "length ws \<le> 4" and "ws \<noteq> ws'"
    and "length (xs @ ws @ ys) = n"
  shows "crc32 (xs @ ws @ ys @ zs) n \<noteq> crc32 (xs @ ws' @ ys @ zs') n"
proof -
  have "take n (xs @ ws @ ys @ zs) = xs @ ws @ ys" and "take n (xs @ ws' @ ys @ zs') = xs @ ws' @ ys"
    using assms by simp_all
  then show ?thesis
    using crc_ref_window_differs [OF assms(1-3), of xs ys "0xFFFFFFFF"]
    by (simp add: crc32_alt)
qed

section \<open>Properties\<close>

text \<open>
  C17. Whatever the static table held and however often the function ran before, a call of
  \<open>crc32\<close> returns the bit-by-bit CRC-32 of the first \<open>len\<close> bytes: the table construction and
  the table-driven loop together compute the reference, and the flag that guards the
  construction stays unset, so the next call computes it again.
\<close>

theorem crc32_call_reference:
  assumes "\<not> crc_table_ready st"
  shows "fst (crc32_call st data len) = crc_ref (take len data) 0xFFFFFFFF XOR 0xFFFFFFFF
    \<and> \<not> crc_table_ready (snd (crc32_call st data len))"
  using assms by (simp add: crc32_call_def crc_loop_ref)

theorem crc32_call_reference_witness:
  "fst (crc32_call crc_statics [0x31, 0x32] 2) = crc_ref [0x31, 0x32] 0xFFFFFFFF XOR 0xFFFFFFFF
   \<and> \<not> crc_table_ready (snd (crc32_call crc_statics [0x31, 0x32] 2))"
  using crc32_call_reference [of crc_statics "[0x31, 0x32]" 2] by (simp add: crc_statics_def)

end
