(* ===== verification/Payloads.thy ===== *)
theory Payloads
  imports Protocol
begin

text \<open>
  The contracts between the serialisers and deserialisers of
  \<open>src/src/core/protocol.cpp\<close>. \<open>payload_codec\<close> is what a peer relies on: a payload that was
  serialised is read back, whatever bytes follow it in the receive buffer, and a failing
  deserialiser leaves the caller's struct as it was. \<open>canonical_codec\<close> adds the converse: what
  a deserialiser accepts is the serialisation of what it returns. Both are interpreted on every
  pair of functions.
\<close>

unbundle bit_operations_syntax

section \<open>Contracts\<close>

locale payload_codec =
  fixes ser :: "'p \<Rightarrow> bytes"
    and deser :: "bytes \<Rightarrow> nat \<Rightarrow> 'p option \<Rightarrow> (bool \<times> 'p option) run"
    and wf :: "'p \<Rightarrow> bool"
  assumes deser_ser: "wf p \<Longrightarrow> deser (ser p @ rest) (length (ser p)) out = Inr (True, Some p)"
    and deser_false: "deser data len out = Inr (False, out') \<Longrightarrow> out' = out"
begin

lemma ser_inject: "wf p \<Longrightarrow> wf q \<Longrightarrow> ser p = ser q \<Longrightarrow> p = q"
  using deser_ser [of p "[]" None] deser_ser [of q "[]" None] by simp

text \<open>A message is its header followed by its payload; the reader finds both.\<close>

lemma deser_frame:
  "wf p \<Longrightarrow> deser (drop 22 (frame t s (ser p) @ rest)) (length (ser p)) out = Inr (True, Some p)"
  by (simp only: drop_frame deser_ser)

text \<open>No serialisation is a proper prefix of another one of the same declared length.\<close>

lemma frame_inject:
  assumes "wf p" and "wf q" and "frame t s (ser p) = frame t' s' (ser q)"
  shows "t = t' \<and> s = s' \<and> p = q"
proof -
  have "ser p = ser q"
    using arg_cong [OF assms(3), of "drop 22"] by (simp add: frame_def)
  moreover have "deserializeHeader (frame t s (ser p) @ []) None
      = deserializeHeader (frame t' s' (ser q) @ []) None"
    using assms(3) by simp
  ultimately show ?thesis
    using ser_inject [OF assms(1,2)] unfolding deserializeHeader_frame
    by (auto simp: buildHeader_def)
qed

end

locale canonical_codec = payload_codec +
  assumes ser_deser:
    "deser data len out = Inr (True, Some p) \<Longrightarrow>
       wf p \<and> length (ser p) \<le> len \<and> (\<exists>rest. data = ser p @ rest)"
begin

text \<open>Two buffers that decode to the same struct agree on the bytes the decoder used.\<close>

lemma deser_determines_bytes:
  assumes "deser data len out = Inr (True, Some p)" and "deser data' len' out' = Inr (True, Some p)"
  shows "take (length (ser p)) data = take (length (ser p)) data'"
  using ser_deser [OF assms(1)] ser_deser [OF assms(2)] by auto

end

section \<open>Shared facts\<close>

lemma map_nth_32: "length xs = 32 \<Longrightarrow> map (\<lambda>i. xs ! i) [0..<32] = xs"
  using map_nth [of xs] by simp

lemma put_be_unat_len: "put_be 2 (of_nat (unat (l :: u16)) :: u64) = put_be 2 l"
  using put_be_length16 [of "unat l"] by simp

lemma peek_be_bytes:
  assumes "peek_be n data i = Inr (x :: 'a::len word)" and "LENGTH('a) = 8 * n"
  shows "take n (drop i data) = put_be n x" and "i + n \<le> length data"
  using assms by (auto simp: peek_be_eq_Inr put_be_get_be)

text \<open>Gluing adjacent fields of a buffer together.\<close>

lemma take_glue: "take (i + n) data = take i data @ take n (drop i data)"
  by (rule take_add)

section \<open>Reject\<close>

interpretation reject_codec: canonical_codec serializeReject deserializeReject "\<lambda>_. True"
proof
  fix p :: RejectPayload and rest out
  show "deserializeReject (serializeReject p @ rest) (length (serializeReject p)) out
      = Inr (True, Some p)"
    by (cases p) (simp add: serializeReject_def deserializeReject_def)
next
  fix data len out out'
  assume "deserializeReject data len out = Inr (False, out')"
  then show "out' = out"
    by (auto simp: deserializeReject_def andThen_eq_Inr split: if_splits)
next
  fix data len out p
  assume "deserializeReject data len out = Inr (True, Some p)"
  then have "1 \<le> len" and "data \<noteq> []" and "p = \<lparr>rp_reason = RejectReason (data ! 0)\<rparr>"
    by (auto simp: deserializeReject_def andThen_eq_Inr peek_eq_Inr split: if_splits)
  then show "True \<and> length (serializeReject p) \<le> len \<and> (\<exists>rest. data = serializeReject p @ rest)"
    by (cases data) (auto simp: serializeReject_def)
qed

section \<open>Done\<close>

interpretation done_codec: canonical_codec serializeDone deserializeDone wf_done
proof
  fix p rest out
  assume "wf_done p"
  then show "deserializeDone (serializeDone p @ rest) (length (serializeDone p)) out
      = Inr (True, Some p)"
    by (cases p) (simp add: serializeDone_def deserializeDone_def wf_done_def map_nth_32
        peeks_zero_append)
next
  fix data len out out'
  assume "deserializeDone data len out = Inr (False, out')"
  then show "out' = out"
    by (auto simp: deserializeDone_def andThen_eq_Inr split: if_splits)
next
  fix data len out p
  assume "deserializeDone data len out = Inr (True, Some p)"
  then have "len = 32" and l: "32 \<le> length data" and p: "p = \<lparr>pd_sha256 = take 32 data\<rparr>"
    by (auto simp: deserializeDone_def andThen_eq_Inr peeks_eq_Inr split: if_splits)
  have s: "serializeDone p = take 32 data"
    using l map_nth_32 [of "take 32 data"] by (simp add: serializeDone_def p)
  show "wf_done p \<and> length (serializeDone p) \<le> len \<and> (\<exists>rest. data = serializeDone p @ rest)"
    unfolding s using \<open>len = 32\<close> l take_is_prefix_ex [of data 32]
    by (simp add: wf_done_def p)
qed

section \<open>Ack\<close>

text \<open>Any non-zero byte reads as \<open>true\<close>, so an acknowledgement has no canonical encoding.\<close>

interpretation ack_codec: payload_codec serializeAck deserializeAck "\<lambda>_. True"
proof
  fix p :: AckPayload and rest out
  show "deserializeAck (serializeAck p @ rest) (length (serializeAck p)) out = Inr (True, Some p)"
    by (cases p) (simp add: serializeAck_def deserializeAck_def)
next
  fix data len out out'
  assume "deserializeAck data len out = Inr (False, out')"
  then show "out' = out"
    by (auto simp: deserializeAck_def andThen_eq_Inr split: if_splits)
qed

section \<open>Error\<close>

lemma deserializeError_True:
  assumes "deserializeError data len out = Inr (True, Some p)"
  shows "wf_error p \<and> length (serializeError p) \<le> len \<and> (\<exists>rest. data = serializeError p @ rest)"
proof -
  obtain c and l :: u16 where d: "peek data 0 = Inr c" "peek_be 2 data 1 = Inr l"
    and len: "3 + unat l \<le> len" and dl: "3 + unat l \<le> length data"
    and p: "p = \<lparr>ep_code = ErrorCode c, ep_message = take (unat l) (drop 3 data)\<rparr>"
    using assms
    by (auto simp: deserializeError_def andThen_eq_Inr peeks_eq_Inr Let_def split: if_splits)
  have s: "serializeError p = [c] @ put_be 2 l @ take (unat l) (drop 3 data)"
    using length_field [OF dl] by (simp add: serializeError_def p Let_def del: length_take)
  also have "\<dots> = take (1 + 2 + unat l) data"
    using d peek_be_bytes(1) [OF d(2)] dl
    by (simp only: take_glue [of "1 + 2"] take_glue [of 1])
      (auto simp: peek_eq_Inr take_Suc_conv_app_nth numeral_3_eq_3)
  finally have "serializeError p = take (1 + 2 + unat l) data" .
  moreover have "wf_error p" by (simp add: wf_error_def p length_field [OF dl] del: length_take)
  ultimately show ?thesis using len dl take_is_prefix_ex [of data "1 + 2 + unat l"]
    by simp
qed

interpretation error_codec: canonical_codec serializeError deserializeError wf_error
proof
  fix p rest out
  assume "wf_error p"
  then show "deserializeError (serializeError p @ rest) (length (serializeError p)) out
      = Inr (True, Some p)"
    by (cases p; cases "ep_code p")
      (simp add: serializeError_def deserializeError_def wf_error_def Let_def unat_of_nat_16
        peek_def peek_be_Cons peek_be_zero peeks_def)
next
  fix data len out out'
  assume "deserializeError data len out = Inr (False, out')"
  then show "out' = out"
    by (auto simp: deserializeError_def andThen_eq_Inr Let_def split: if_splits)
qed (rule deserializeError_True)

section \<open>Discovery\<close>

lemma deserializeDiscovery_True:
  assumes "deserializeDiscovery data len out = Inr (True, Some p)"
  shows "wf_discovery p \<and> length (serializeDiscovery p) \<le> len
    \<and> (\<exists>rest. data = serializeDiscovery p @ rest)"
proof -
  obtain t l :: u16 where d: "peek_be 2 data 0 = Inr t" "peek_be 2 data 2 = Inr l"
    and len: "4 + unat l \<le> len" and dl: "4 + unat l \<le> length data"
    and p: "p = \<lparr>dp_device_name = take (unat l) (drop 4 data), dp_tcp_port = t\<rparr>"
    using assms
    by (auto simp: deserializeDiscovery_def andThen_eq_Inr peeks_eq_Inr Let_def split: if_splits)
  have "serializeDiscovery p = put_be 2 t @ put_be 2 l @ take (unat l) (drop 4 data)"
    using length_field [OF dl] by (simp add: serializeDiscovery_def p Let_def del: length_take)
  also have "\<dots> = take (2 + 2 + unat l) data"
    using peek_be_bytes(1) [OF d(1)] peek_be_bytes(1) [OF d(2)]
    by (simp only: take_glue [of "2 + 2"] take_glue [of 2]) simp
  finally have "serializeDiscovery p = take (2 + 2 + unat l) data" .
  moreover have "wf_discovery p" by (simp add: wf_discovery_def p length_field [OF dl] del: length_take)
  ultimately show ?thesis using len dl take_is_prefix_ex [of data "2 + 2 + unat l"]
    by simp
qed

interpretation discovery_codec: canonical_codec serializeDiscovery deserializeDiscovery wf_discovery
proof
  fix p rest out
  assume "wf_discovery p"
  then show "deserializeDiscovery (serializeDiscovery p @ rest) (length (serializeDiscovery p)) out
      = Inr (True, Some p)"
    by (cases p)
      (simp add: serializeDiscovery_def deserializeDiscovery_def wf_discovery_def Let_def
        unat_of_nat_16 peek_be_skip peek_be_zero peeks_append_right peeks_zero_append)
next
  fix data len out out'
  assume "deserializeDiscovery data len out = Inr (False, out')"
  then show "out' = out"
    by (auto simp: deserializeDiscovery_def andThen_eq_Inr Let_def split: if_splits)
qed (rule deserializeDiscovery_True)

section \<open>Offer\<close>

lemma deserializeOffer_True:
  assumes "deserializeOffer data len out = Inr (True, Some p)"
  shows "wf_offer p \<and> length (serializeOffer p) \<le> len \<and> (\<exists>rest. data = serializeOffer p @ rest)"
proof -
  obtain fsz ro :: u64 and fl dl :: u16 where d: "peek_be 8 data 0 = Inr fsz"
      "peek_be 8 data 8 = Inr ro" "peek_be 2 data 48 = Inr fl" "peek_be 2 data (50 + unat fl) = Inr dl"
    and len: "52 + unat fl + unat dl \<le> len" and len': "52 + unat fl + unat dl \<le> length data"
    and p: "p = \<lparr>op_file_size = fsz, op_resume_offset = ro, op_sha256 = take 32 (drop 16 data),
      op_file_name = take (unat fl) (drop 50 data),
      op_device_name = take (unat dl) (drop (52 + unat fl) data)\<rparr>"
    using assms
    by (auto simp: deserializeOffer_def andThen_eq_Inr peeks_eq_Inr Let_def split: if_splits)
  have l: "length (take (unat fl) (drop 50 data)) = unat fl" "length (take 32 (drop 16 data)) = 32"
      "length (take (unat dl) (drop (52 + unat fl) data)) = unat dl"
    using len' by simp_all
  have "serializeOffer p = put_be 8 fsz @ put_be 8 ro @ take 32 (drop 16 data) @ put_be 2 fl
      @ take (unat fl) (drop 50 data) @ put_be 2 dl @ take (unat dl) (drop (52 + unat fl) data)"
    by (simp only: serializeOffer_def p OfferPayload.simps l put_be_unat_len map_nth_32 [OF l(2)])
  also have "\<dots> = take (8 + 8 + 32 + 2 + unat fl + 2 + unat dl) data"
    by (simp only: take_glue append.assoc)
      (use d [THEN peek_be_bytes(1)] in \<open>simp add: add.commute\<close>)
  finally have "serializeOffer p = take (8 + 8 + 32 + 2 + unat fl + 2 + unat dl) data" .
  moreover have "wf_offer p" by (simp only: wf_offer_def p OfferPayload.simps l) simp
  ultimately show ?thesis
    using len len' take_is_prefix_ex [of data "8 + 8 + 32 + 2 + unat fl + 2 + unat dl"] by simp
qed

lemma serializeOffer_wf:
  "wf_offer p \<Longrightarrow> serializeOffer p = put_be 8 (op_file_size p) @ put_be 8 (op_resume_offset p)
     @ op_sha256 p @ put_be 2 (of_nat (length (op_file_name p)) :: u16) @ op_file_name p
     @ put_be 2 (of_nat (length (op_device_name p)) :: u16) @ op_device_name p"
  by (simp add: serializeOffer_def wf_offer_def map_nth_32 put_be_length16)

interpretation offer_codec: canonical_codec serializeOffer deserializeOffer wf_offer
proof
  fix p rest out
  assume wf: "wf_offer p"
  then show "deserializeOffer (serializeOffer p @ rest) (length (serializeOffer p)) out
      = Inr (True, Some p)"
    by (simp add: serializeOffer_wf deserializeOffer_def wf_offer_def Let_def unat_of_nat_16
        peek_be_skip peek_be_zero peeks_append_right peeks_zero_append)
next
  fix data len out out'
  assume "deserializeOffer data len out = Inr (False, out')"
  then show "out' = out"
    by (auto simp: deserializeOffer_def andThen_eq_Inr Let_def split: if_splits)
qed (rule deserializeOffer_True)

section \<open>Reads of the offer deserialiser\<close>

definition offer_name_length :: "bytes \<Rightarrow> nat" where
  "offer_name_length data = unat (get_be (take 2 (drop 48 data)) :: u16)"

lemma deserializeOffer_read_prefix:
  assumes "50 \<le> len" and "len \<le> length data"
  shows "deserializeOffer data len out =
    (if len < 50 + offer_name_length data then Inr (False, out)
     else andThen (peek_be 2 data (50 + offer_name_length data)) (\<lambda>dl :: u16.
       if len < 52 + offer_name_length data + unat dl then Inr (False, out)
       else Inr (True, Some \<lparr>op_file_size = get_be (take 8 data),
         op_resume_offset = get_be (take 8 (drop 8 data)), op_sha256 = take 32 (drop 16 data),
         op_file_name = take (offer_name_length data) (drop 50 data),
         op_device_name = take (unat dl) (drop (52 + offer_name_length data) data)\<rparr>)))"
proof -
  have "52 + offer_name_length data + unat dl \<le> length data"
    if "\<not> len < 52 + offer_name_length data + unat dl" for dl :: u16
    using that assms(2) by simp
  then show ?thesis
    using assms
    by (auto simp: deserializeOffer_def peek_be_in peeks_in Let_def offer_name_length_def
        simp del: take_drop intro!: arg_cong2 [where f = andThen])
qed

section \<open>Properties of the payloads\<close>

text \<open>
  C13. An offer whose digest has 32 bytes and whose names fit their 16-bit length fields survives
  the trip over the wire: the receiver, given the serialised offer and its length and any bytes
  behind it, reads back exactly that offer.
\<close>

theorem offer_roundtrip:
  assumes "wf_offer p"
  shows "deserializeOffer (serializeOffer p @ rest) (length (serializeOffer p)) out
    = Inr (True, Some p)"
  by (rule offer_codec.deser_ser [OF assms])

definition sample_offer :: OfferPayload where
  "sample_offer = \<lparr>op_file_size = 3, op_resume_offset = 0, op_sha256 = replicate 32 7,
     op_file_name = [0x61, 0x2E, 0x74], op_device_name = [0x70, 0x63]\<rparr>"

theorem offer_roundtrip_witness:
  "deserializeOffer (serializeOffer sample_offer @ [9]) (length (serializeOffer sample_offer)) None
    = Inr (True, Some sample_offer)"
  by (rule offer_roundtrip) (simp add: wf_offer_def sample_offer_def)

text \<open>
  C14. An accepted offer is canonical: the struct it yields is well formed, its serialisation is no
  longer than the declared payload, and the receive buffer starts with exactly those bytes.
\<close>

theorem offer_accepts_only_serialised:
  assumes "deserializeOffer data len out = Inr (True, Some p)"
  shows "wf_offer p \<and> length (serializeOffer p) \<le> len
    \<and> take (length (serializeOffer p)) data = serializeOffer p"
  using offer_codec.ser_deser [OF assms] by auto

theorem offer_accepts_only_serialised_witness:
  "wf_offer sample_offer
   \<and> length (serializeOffer sample_offer) \<le> length (serializeOffer sample_offer)
   \<and> take (length (serializeOffer sample_offer)) (serializeOffer sample_offer)
     = serializeOffer sample_offer"
proof -
  have "deserializeOffer (serializeOffer sample_offer) (length (serializeOffer sample_offer)) None
      = Inr (True, Some sample_offer)"
    using offer_codec.deser_ser [of sample_offer "[]"] by (simp add: wf_offer_def sample_offer_def)
  then show ?thesis by (rule offer_accepts_only_serialised)
qed

text \<open>
  C15. The bounds checks of \<open>deserializeOffer\<close> leave a gap of two bytes. On a buffer that holds
  the declared \<open>len\<close> bytes the function reads outside the buffer exactly when the declared file
  name reaches so close to the end that the two bytes of the device-name length are missing;
  two spare bytes behind the payload are always enough.
\<close>

theorem offer_overread:
  assumes "len \<le> length data"
  shows "(deserializeOffer data len out = Inl OutOfBounds \<longleftrightarrow>
      50 \<le> len \<and> 50 + offer_name_length data \<le> len \<and> length data < 52 + offer_name_length data)
    \<and> (len + 2 \<le> length data \<longrightarrow> (\<exists>r. deserializeOffer data len out = Inr r))"
proof (cases "50 \<le> len")
  case True
  show ?thesis
    unfolding deserializeOffer_read_prefix [OF True assms]
    using assms True
    by (cases "52 + offer_name_length data \<le> length data") (auto simp: peek_be_in peek_be_out)
next
  case False
  then show ?thesis by (auto simp: deserializeOffer_def)
qed

theorem offer_overread_witness:
  "deserializeOffer (replicate 50 0) 50 None = Inl OutOfBounds
   \<and> (\<exists>r. deserializeOffer (replicate 52 0) 50 None = Inr r)"
proof -
  have "offer_name_length (replicate 50 0) = 0" "offer_name_length (replicate 52 0) = 0"
    by (simp_all add: offer_name_length_def get_be_def numeral_2_eq_2)
  then show ?thesis
    using offer_overread [of 50 "replicate 50 0" None] offer_overread [of 50 "replicate 52 0" None]
    by simp
qed

text \<open>
  C16. The other payloads: a discovery announcement and an error message with names and texts
  below 64 KiB, a reject, a 32-byte done payload and an acknowledgement are all read back as
  they were sent, and what the discovery and error deserialisers accept is canonical.
\<close>

theorem payload_roundtrips:
  "(wf_discovery d \<longrightarrow> deserializeDiscovery (serializeDiscovery d @ rest)
       (length (serializeDiscovery d)) out1 = Inr (True, Some d))
   \<and> (wf_error e \<longrightarrow> deserializeError (serializeError e @ rest)
       (length (serializeError e)) out2 = Inr (True, Some e))
   \<and> (wf_done f \<longrightarrow> deserializeDone (serializeDone f @ rest)
       (length (serializeDone f)) out3 = Inr (True, Some f))
   \<and> deserializeReject (serializeReject r @ rest) (length (serializeReject r)) out4
       = Inr (True, Some r)
   \<and> deserializeAck (serializeAck a @ rest) (length (serializeAck a)) out5 = Inr (True, Some a)
   \<and> (deserializeDiscovery data len out1 = Inr (True, Some d') \<longrightarrow>
       take (length (serializeDiscovery d')) data = serializeDiscovery d')
   \<and> (deserializeError data len out2 = Inr (True, Some e') \<longrightarrow>
       take (length (serializeError e')) data = serializeError e')"
  using discovery_codec.deser_ser error_codec.deser_ser done_codec.deser_ser
    reject_codec.deser_ser ack_codec.deser_ser discovery_codec.ser_deser [of data len out1 d']
    error_codec.ser_deser [of data len out2 e']
  by auto

theorem payload_roundtrips_witness:
  "deserializeDiscovery (serializeDiscovery \<lparr>dp_device_name = [0x70, 0x63], dp_tcp_port = 50001\<rparr> @ [])
     (length (serializeDiscovery \<lparr>dp_device_name = [0x70, 0x63], dp_tcp_port = 50001\<rparr>)) None
    = Inr (True, Some \<lparr>dp_device_name = [0x70, 0x63], dp_tcp_port = 50001\<rparr>)"
  using payload_roundtrips [of "\<lparr>dp_device_name = [0x70, 0x63], dp_tcp_port = 50001\<rparr>" "[]" None]
  by (simp add: wf_discovery_def)

end
