(* ===== verification/Paths.thy ===== *)
theory Paths
  imports Prelude
begin

text \<open>
  Where a received file is stored: \<open>getDownloadsFolder\<close> and \<open>resolveFilePath\<close> of
  \<open>src/src/core/transfer.cpp\<close>, over the parts of \<open>std::filesystem::path\<close> they use, in their
  POSIX form. The file system is a parameter: \<open>exists\<close> answers or throws (a name that is too
  long, a directory that may not be searched). The loop that numbers the copies ends because its
  counter is an \<open>int\<close>: at the latest its increment overflows, which is undefined.
\<close>

section \<open>Paths\<close>

abbreviation slash :: u8 where "slash \<equiv> 47"
abbreviation dot :: u8 where "dot \<equiv> 46"

text \<open>\<open>operator/\<close>: an absolute right operand replaces the left one; otherwise a separator is added
  when the left operand has a file name.\<close>

definition is_absolute :: "bytes \<Rightarrow> bool" where
  "is_absolute p \<longleftrightarrow> p \<noteq> [] \<and> hd p = slash"

definition has_filename :: "bytes \<Rightarrow> bool" where
  "has_filename p \<longleftrightarrow> p \<noteq> [] \<and> last p \<noteq> slash"

definition path_append :: "bytes \<Rightarrow> bytes \<Rightarrow> bytes" where
  "path_append p q =
     (if is_absolute q then q else if has_filename p then p @ [slash] @ q else p @ q)"

text \<open>\<open>filename()\<close> is what follows the last separator; \<open>stem()\<close> and \<open>extension()\<close> split it at its
  last dot, unless that dot is its first character or the name is \<open>..\<close>.\<close>

definition filename :: "bytes \<Rightarrow> bytes" where
  "filename p = rev (takeWhile (\<lambda>c. c \<noteq> slash) (rev p))"

definition extension_at :: "bytes \<Rightarrow> nat option" where
  "extension_at nm =
     (let k = length (takeWhile (\<lambda>c. c \<noteq> dot) (rev nm))
      in if nm = [dot, dot] \<or> k \<ge> length nm \<or> length nm - 1 - k = 0 then None
         else Some (length nm - 1 - k))"

definition stem :: "bytes \<Rightarrow> bytes" where
  "stem p = (case extension_at (filename p) of None \<Rightarrow> filename p | Some i \<Rightarrow> take i (filename p))"

definition extension :: "bytes \<Rightarrow> bytes" where
  "extension p = (case extension_at (filename p) of None \<Rightarrow> [] | Some i \<Rightarrow> drop i (filename p))"

text \<open>\<open>std::to_string\<close> of a non-negative number.\<close>

fun to_string :: "nat \<Rightarrow> bytes" where
  "to_string n = (if n < 10 then [of_nat (48 + n)] else to_string (n div 10) @ [of_nat (48 + n mod 10)])"

declare to_string.simps [simp del]

section \<open>The numbering loop\<close>

definition numbered :: "bytes \<Rightarrow> nat \<Rightarrow> bytes \<Rightarrow> bytes" where
  "numbered stm n ext = stm @ [32, 40] @ to_string n @ [41] @ ext"

text \<open>
  \<open>counter\<close> is an \<open>int\<close> that starts at 1 and is only incremented, in \<open>std::to_string(counter++)\<close>;
  incrementing the largest \<open>int\<close> is undefined.
\<close>

definition INT_MAX :: nat where "INT_MAX = 2147483647"

function resolve_loop ::
  "(bytes \<Rightarrow> bool run) \<Rightarrow> bytes \<Rightarrow> bytes \<Rightarrow> bytes \<Rightarrow> nat \<Rightarrow> bytes \<Rightarrow> bytes run" where
  "resolve_loop exists dir stm ext counter candidate =
     (case exists candidate of
        Inl e \<Rightarrow> Inl e
      | Inr present \<Rightarrow>
          if \<not> present then Inr candidate
          else if INT_MAX \<le> counter then Inl Overflow
          else resolve_loop exists dir stm ext (counter + 1) (path_append dir (numbered stm counter ext)))"
  by pat_completeness auto
termination
  by (relation "measure (\<lambda>(exists, dir, stm, ext, counter, candidate). INT_MAX - counter)") auto

declare resolve_loop.simps [simp del]

definition resolveFilePath :: "(bytes \<Rightarrow> bool run) \<Rightarrow> bytes \<Rightarrow> bytes \<Rightarrow> bytes run" where
  "resolveFilePath exists dir fname =
     (let candidate = path_append dir fname in
      andThen (exists candidate) (\<lambda>present.
      if \<not> present then Inr candidate
      else resolve_loop exists dir (stem candidate) (extension candidate) 1 candidate))"

section \<open>The downloads folder\<close>

text \<open>
  What \<open>getDownloadsFolder\<close> asks the system (its POSIX branch): two environment variables, the
  output of \<^verbatim>\<open>xdg-user-dir DOWNLOAD\<close> (\<open>None\<close> when the pipe cannot be opened) and which paths are
  directories.
\<close>

record folder_env =
  fe_xdg :: "bytes option"
  fe_home :: "bytes option"
  fe_pipe :: "bytes option"
  fe_is_directory :: "bytes \<Rightarrow> bool"

text \<open>\<open>fgets(line, 512, pipe)\<close> stores at most 511 bytes, up to and with the first newline, and
  fails at the end of the output; \<open>std::string p(line)\<close> ends at the first zero byte.\<close>

definition fgets :: "nat \<Rightarrow> bytes \<Rightarrow> bytes option" where
  "fgets n out =
     (if out = [] then None
      else let l = takeWhile (\<lambda>c. c \<noteq> 10) out
           in Some (take (n - 1) (if length l < length out then l @ [10] else l)))"

definition c_string :: "bytes \<Rightarrow> bytes" where
  "c_string cs = takeWhile (\<lambda>c. c \<noteq> 0) cs"

definition chomp :: "bytes \<Rightarrow> bytes" where
  "chomp p = (if p \<noteq> [] \<and> last p = 10 then butlast p else p)"

text \<open>\<open>operator!=\<close> on paths compares root directory and elements, so repeated separators do not
  count and a trailing one does.\<close>

fun path_elements :: "bytes \<Rightarrow> bytes \<Rightarrow> bytes list" where
  "path_elements acc [] = (if acc = [] then [] else [acc])"
| "path_elements acc (c # cs) =
     (if c = slash then (if acc = [] then [] else [acc]) @ path_elements [] cs
      else path_elements (acc @ [c]) cs)"

definition path_equal :: "bytes \<Rightarrow> bytes \<Rightarrow> bool" where
  "path_equal p q \<longleftrightarrow> is_absolute p = is_absolute q
     \<and> path_elements [] p = path_elements [] q
     \<and> (path_elements [] p \<noteq> [] \<longrightarrow> has_filename p = has_filename q)"

definition getDownloadsFolder :: "folder_env \<Rightarrow> bytes" where
  "getDownloadsFolder env =
     (let fallback = [dot];
          ask_pipe =
            (case fe_pipe env of
               None \<Rightarrow> fallback
             | Some out \<Rightarrow>
                 (case fgets 512 out of
                    None \<Rightarrow> fallback
                  | Some line \<Rightarrow>
                      let candidate = chomp (c_string line)
                      in if fe_is_directory env candidate
                            \<and> (case fe_home env of None \<Rightarrow> True
                               | Some home \<Rightarrow> \<not> path_equal candidate home)
                         then candidate else fallback))
      in case fe_xdg env of
           Some xdg \<Rightarrow> if fe_is_directory env xdg then xdg else ask_pipe
         | None \<Rightarrow> ask_pipe)"

section \<open>Lemmas on names\<close>

fun read_decimal :: "nat \<Rightarrow> bytes \<Rightarrow> nat" where
  "read_decimal acc [] = acc"
| "read_decimal acc (c # cs) = read_decimal (10 * acc + (unat c - 48)) cs"

lemma read_decimal_append: "read_decimal acc (xs @ ys) = read_decimal (read_decimal acc xs) ys"
  by (induction xs arbitrary: acc) auto

lemma unat_digit: "d < 10 \<Longrightarrow> unat (of_nat (48 + d) :: u8) = 48 + d"
  by (simp only: unsigned_of_nat) (simp add: take_bit_nat_eq_self)

lemma read_decimal_to_string [simp]: "read_decimal 0 (to_string n) = n"
proof (induction n rule: to_string.induct)
  case (1 n)
  show ?case
  proof (cases "n < 10")
    case True
    then show ?thesis using unat_digit [of n] by (simp add: to_string.simps [of n])
  next
    case False
    with 1 unat_digit [of "n mod 10"] show ?thesis
      by (simp add: to_string.simps [of n] read_decimal_append)
  qed
qed

lemma to_string_inject [simp]: "to_string m = to_string n \<longleftrightarrow> m = n"
  by (metis read_decimal_to_string)

lemma digit_not_slash: "d < 10 \<Longrightarrow> (of_nat (48 + d) :: u8) \<noteq> slash"
  using arg_cong [of "of_nat (48 + d) :: u8" slash unat] unat_digit [of d] by fastforce

lemma slash_notin_to_string: "slash \<notin> set (to_string n)"
proof (induction n rule: to_string.induct)
  case (1 n)
  then show ?case
    using digit_not_slash [of n] digit_not_slash [of "n mod 10"]
    by (subst to_string.simps) (simp del: of_nat_add)
qed

lemma slash_notin_filename: "slash \<notin> set (filename p)"
  by (auto simp: filename_def dest: set_takeWhileD)

lemma slash_notin_stem: "slash \<notin> set (stem p)"
  using slash_notin_filename [of p] in_set_takeD
  by (fastforce simp: stem_def split: option.splits)

lemma slash_notin_extension: "slash \<notin> set (extension p)"
  using slash_notin_filename [of p] in_set_dropD
  by (fastforce simp: extension_def split: option.splits)

lemma slash_notin_numbered: "slash \<notin> set (numbered (stem p) n (extension p))"
  by (simp add: numbered_def slash_notin_to_string slash_notin_stem slash_notin_extension)

lemma stem_extension: "stem p @ extension p = filename p"
  by (simp add: stem_def extension_def split: option.splits)

lemma not_absolute_no_slash: "slash \<notin> set q \<Longrightarrow> \<not> is_absolute q"
  by (cases q) (auto simp: is_absolute_def)

lemma path_append_inject:
  "\<not> is_absolute q \<Longrightarrow> \<not> is_absolute r \<Longrightarrow> path_append p q = path_append p r \<longleftrightarrow> q = r"
  by (simp add: path_append_def)

lemma filename_append: "slash \<notin> set q \<Longrightarrow> filename (p @ [slash] @ q) = q"
  by (simp add: filename_def takeWhile_append takeWhile_eq_all_conv [THEN iffD2])

section \<open>What the loop returns\<close>

text \<open>
  The names of a folder: what has a name without a separator in it. A folder of a real file system has finitely many,
  although infinitely many paths name existing files.
\<close>

definition folder_names :: "(bytes \<Rightarrow> bool) \<Rightarrow> bytes \<Rightarrow> bytes set" where
  "folder_names present dir = {nm. slash \<notin> set nm \<and> present (path_append dir nm)}"

text \<open>The copy with number \<open>n\<close> of the candidate.\<close>

definition copy_of :: "bytes \<Rightarrow> bytes \<Rightarrow> nat \<Rightarrow> bytes" where
  "copy_of dir candidate n = path_append dir (numbered (stem candidate) n (extension candidate))"

text \<open>As long as the copies exist, the loop goes on to the next one.\<close>

lemma resolve_loop_skips:
  assumes "counter \<le> n" and "n \<le> INT_MAX" and "exists candidate = Inr True"
    and "\<forall>k. counter \<le> k \<and> k < n \<longrightarrow> exists (path_append dir (numbered stm k ext)) = Inr True"
  shows "\<exists>c. exists c = Inr True \<and> resolve_loop exists dir stm ext counter candidate = resolve_loop exists dir stm ext n c"
  using assms
proof (induction "n - counter" arbitrary: counter candidate)
  case 0
  then show ?case by auto
next
  case (Suc d)
  then have "exists (path_append dir (numbered stm counter ext)) = Inr True" by simp
  moreover have "counter < INT_MAX" using Suc.hyps(2) Suc.prems(2) by linarith
  then have "resolve_loop exists dir stm ext counter candidate
      = resolve_loop exists dir stm ext (Suc counter) (path_append dir (numbered stm counter ext))"
    using Suc.prems(3) by (subst resolve_loop.simps) simp
  ultimately show ?case using Suc.hyps(1) [of "Suc counter"] Suc.hyps(2) Suc.prems by simp
qed

lemma resolve_loop_stops:
  assumes "counter \<le> n" and "n < INT_MAX" and "exists candidate = Inr True"
    and "\<forall>k. counter \<le> k \<and> k < n \<longrightarrow> exists (path_append dir (numbered stm k ext)) = Inr True"
    and "exists (path_append dir (numbered stm n ext)) = r" and "r \<noteq> Inr True"
  shows "resolve_loop exists dir stm ext counter candidate
    = andThen r (\<lambda>_. Inr (path_append dir (numbered stm n ext)))"
proof -
  obtain c where c: "exists c = Inr True"
    "resolve_loop exists dir stm ext counter candidate = resolve_loop exists dir stm ext n c"
    using resolve_loop_skips [OF assms(1) less_imp_le [OF assms(2)] assms(3,4)] by blast
  have "resolve_loop exists dir stm ext n c = resolve_loop exists dir stm ext (n + 1) (path_append dir (numbered stm n ext))"
    using c(1) assms(2) by (subst resolve_loop.simps) simp
  also have "\<dots> = andThen r (\<lambda>_. Inr (path_append dir (numbered stm n ext)))"
    using assms(5,6) by (subst resolve_loop.simps) (auto simp: andThen_def split: sum.splits)
  finally show ?thesis using c(2) by simp
qed

lemma resolve_loop_overflows:
  assumes "counter \<le> INT_MAX" and "exists candidate = Inr True"
    and "\<forall>k. counter \<le> k \<and> k < INT_MAX \<longrightarrow> exists (path_append dir (numbered stm k ext)) = Inr True"
  shows "resolve_loop exists dir stm ext counter candidate = Inl Overflow"
proof -
  obtain c where "exists c = Inr True"
    "resolve_loop exists dir stm ext counter candidate = resolve_loop exists dir stm ext INT_MAX c"
    using resolve_loop_skips [OF assms(1) order_refl assms(2,3)] by blast
  then show ?thesis by (simp add: resolve_loop.simps [of _ _ _ _ INT_MAX])
qed

lemma numbered_inject: "numbered stm m ext = numbered stm n ext \<longleftrightarrow> m = n"
  by (simp add: numbered_def)

lemma first_free:
  fixes n :: nat
  assumes "1 \<le> n" and "\<not> P n"
  obtains m where "1 \<le> m" and "m \<le> n" and "\<not> P m" and "\<forall>k. 1 \<le> k \<and> k < m \<longrightarrow> P k"
proof -
  let ?m = "LEAST m. 1 \<le> m \<and> \<not> P m"
  have "1 \<le> ?m \<and> \<not> P ?m" by (rule LeastI [of _ n]) (use assms in simp)
  moreover have "?m \<le> n" by (rule Least_le) (use assms in simp)
  moreover have "P k" if "1 \<le> k \<and> k < ?m" for k
    using not_less_Least [of k "\<lambda>m. 1 \<le> m \<and> \<not> P m"] that by blast
  ultimately show ?thesis using that by blast
qed

lemma free_number_exists:
  assumes "finite (folder_names present dir)"
  shows "\<exists>n. 1 \<le> n \<and> n \<le> card (folder_names present dir) + 1 \<and> \<not> present (copy_of dir p n)"
proof (rule ccontr)
  let ?F = "folder_names present dir" and ?c = "\<lambda>k. numbered (stem p) k (extension p)"
  assume "\<not> ?thesis"
  then have "?c ` {1..card ?F + 1} \<subseteq> ?F"
    by (auto simp: folder_names_def copy_of_def slash_notin_numbered)
  then have "card (?c ` {1..card ?F + 1}) \<le> card ?F" by (rule card_mono [OF assms])
  moreover have "card (?c ` {1..card ?F + 1}) = card ?F + 1"
    by (subst card_image) (auto simp: inj_on_def numbered_inject)
  ultimately show False by simp
qed

lemma resolve_stops:
  assumes "exists (path_append dir fname) = Inr True" and "1 \<le> n" and "n < INT_MAX"
    and "\<forall>k. 1 \<le> k \<and> k < n \<longrightarrow> exists (copy_of dir (path_append dir fname) k) = Inr True"
    and "exists (copy_of dir (path_append dir fname) n) = r" and "r \<noteq> Inr True"
  shows "resolveFilePath exists dir fname = andThen r (\<lambda>_. Inr (copy_of dir (path_append dir fname) n))"
  using assms resolve_loop_stops [of 1 n exists "path_append dir fname" dir "stem (path_append dir fname)"
      "extension (path_append dir fname)" r]
  by (simp add: resolveFilePath_def copy_of_def Let_def)

text \<open>Whatever the loop returns is free, and is the candidate it started with or a numbered name.\<close>

lemma resolve_loop_result:
  assumes "resolve_loop exists dir stm ext c candidate = Inr r"
  shows "exists r = Inr False \<and> (r = candidate \<or> (\<exists>n. r = path_append dir (numbered stm n ext)))"
  using assms
proof (induction exists dir stm ext c candidate rule: resolve_loop.induct)
  case (1 exists dir stm ext c candidate)
  from 1(2) have r: "(case exists candidate of Inl e \<Rightarrow> Inl e
      | Inr present \<Rightarrow> if \<not> present then Inr candidate else if INT_MAX \<le> c then Inl Overflow
          else resolve_loop exists dir stm ext (c + 1) (path_append dir (numbered stm c ext))) = Inr r"
    by (subst (asm) resolve_loop.simps)
  show ?case
  proof (cases "exists candidate = Inr True")
    case True
    with r 1(1) [OF True] show ?thesis by (auto split: if_splits)
  next
    case False
    with r show ?thesis by (auto split: sum.splits if_splits)
  qed
qed

lemma resolveFilePath_result:
  assumes "resolveFilePath exists dir fname = Inr r"
  shows "exists r = Inr False" and "r = path_append dir fname \<or>
    (\<exists>n. r = path_append dir (numbered (stem (path_append dir fname)) n (extension (path_append dir fname))))"
  using assms by (auto simp: resolveFilePath_def Let_def run_simps split: if_splits dest!: resolve_loop_result)

lemma resolveFilePath_free:
  "exists (path_append dir fname) = Inr False \<Longrightarrow>
   resolveFilePath exists dir fname = Inr (path_append dir fname)"
  by (simp add: resolveFilePath_def)

section \<open>Properties\<close>

text \<open>
  C20. \<open>resolveFilePath\<close> on a file system that answers every question. A free candidate is returned as it is.
  Otherwise the loop returns the copy with the smallest free number; it returns no copy only when all
  copies up to the largest \<open>int\<close> exist, and then the increment of the counter overflows. In
  particular, in a folder that has fewer names than that, it returns a path that does not exist after at most
  one attempt more than the folder has names.
\<close>

theorem resolveFilePath_fresh:
  assumes "\<And>p. exists p = Inr (present p)"
  shows "(\<not> present (path_append dir fname) \<longrightarrow> resolveFilePath exists dir fname = Inr (path_append dir fname))
    \<and> (present (path_append dir fname) \<and> 1 \<le> n \<and> n < INT_MAX
        \<and> \<not> present (copy_of dir (path_append dir fname) n)
        \<and> (\<forall>k. 1 \<le> k \<and> k < n \<longrightarrow> present (copy_of dir (path_append dir fname) k))
        \<longrightarrow> resolveFilePath exists dir fname = Inr (copy_of dir (path_append dir fname) n))
    \<and> (resolveFilePath exists dir fname = Inl e \<longleftrightarrow> e = Overflow \<and> present (path_append dir fname)
        \<and> (\<forall>k. 1 \<le> k \<and> k < INT_MAX \<longrightarrow> present (copy_of dir (path_append dir fname) k)))
    \<and> (finite (folder_names present dir) \<and> card (folder_names present dir) + 1 < INT_MAX
        \<and> present (path_append dir fname) \<longrightarrow>
        (\<exists>m. 1 \<le> m \<and> m \<le> card (folder_names present dir) + 1 \<and> \<not> present (copy_of dir (path_append dir fname) m)
          \<and> resolveFilePath exists dir fname = Inr (copy_of dir (path_append dir fname) m)))"
proof -
  let ?p = "path_append dir fname" and ?res = "resolveFilePath exists dir fname"
  have free: "?res = Inr ?p" if "\<not> present ?p"
    using that assms by (simp add: resolveFilePath_free)
  have copy: "?res = Inr (copy_of dir ?p m)" if "present ?p" "1 \<le> m" "m < INT_MAX" "\<not> present (copy_of dir ?p m)"
    "\<forall>k. 1 \<le> k \<and> k < m \<longrightarrow> present (copy_of dir ?p k)" for m
    using resolve_stops [of exists dir fname m "Inr False"] that assms by simp
  have first: "\<exists>m. 1 \<le> m \<and> m \<le> k \<and> \<not> present (copy_of dir ?p m) \<and> ?res = Inr (copy_of dir ?p m)"
    if "present ?p" "1 \<le> k" "k < INT_MAX" "\<not> present (copy_of dir ?p k)" for k
    using first_free [of k "\<lambda>k. present (copy_of dir ?p k)"] that copy by (metis le_less_trans)
  have all: "?res = Inl Overflow"
    if "present ?p" "\<forall>k. 1 \<le> k \<and> k < INT_MAX \<longrightarrow> present (copy_of dir ?p k)"
    using resolve_loop_overflows [of 1 exists ?p dir "stem ?p" "extension ?p"] that assms
    by (simp add: resolveFilePath_def copy_of_def INT_MAX_def)
  have "?res = Inl e \<longleftrightarrow> e = Overflow \<and> present ?p \<and> (\<forall>k. 1 \<le> k \<and> k < INT_MAX \<longrightarrow> present (copy_of dir ?p k))"
  proof (cases "present ?p \<and> (\<forall>k. 1 \<le> k \<and> k < INT_MAX \<longrightarrow> present (copy_of dir ?p k))")
    case True
    with all show ?thesis by auto
  next
    case False
    then have "\<exists>r. ?res = Inr r" using free first by blast
    with False show ?thesis by auto
  qed
  moreover have "\<exists>m. 1 \<le> m \<and> m \<le> card (folder_names present dir) + 1 \<and> \<not> present (copy_of dir ?p m)
      \<and> ?res = Inr (copy_of dir ?p m)"
    if "finite (folder_names present dir)" "card (folder_names present dir) + 1 < INT_MAX" "present ?p"
    using free_number_exists [OF that(1), of ?p] first [OF that(3)] that(2) by (meson le_less_trans order_trans)
  ultimately show ?thesis using free copy by blast
qed

text \<open>
  The offered name \<open>a.b\<close> in the folder \<open>d\<close> when it and its first copy are taken, on a file system where every path of
  separators names the root.
\<close>

definition sample_present :: "bytes \<Rightarrow> bool" where
  "sample_present p \<longleftrightarrow> p \<noteq> [] \<and> set p = {slash}
     \<or> p = [100, 47, 97, 46, 98] \<or> p = [100, 47, 97, 32, 40, 49, 41, 46, 98]"

lemma sample_folder: "finite (folder_names sample_present [100])" "infinite {p. sample_present p}"
proof -
  have "folder_names sample_present [100] \<subseteq> {[97, 46, 98], [97, 32, 40, 49, 41, 46, 98]}"
    by (auto simp: folder_names_def sample_present_def path_append_def is_absolute_def has_filename_def)
  then show "finite (folder_names sample_present [100])" by (rule finite_subset) simp
  have "infinite (range (\<lambda>n. replicate (Suc n) slash))"
  proof
    assume "finite (range (\<lambda>n. replicate (Suc n) slash))"
    moreover have "inj (\<lambda>n. replicate (Suc n) slash)"
      by (rule injI) (drule arg_cong [where f = length], simp)
    ultimately have "finite (UNIV :: nat set)" by (rule finite_imageD)
    then show False by simp
  qed
  moreover have "range (\<lambda>n. replicate (Suc n) slash) \<subseteq> {p. sample_present p}"
    by (auto simp: sample_present_def)
  ultimately show "infinite {p. sample_present p}" using finite_subset by blast
qed

theorem resolveFilePath_fresh_witness:
  "resolveFilePath (\<lambda>p. Inr (sample_present p)) [100] [97, 46, 98] = Inr [100, 47, 97, 32, 40, 50, 41, 46, 98]
   \<and> finite (folder_names sample_present [100]) \<and> infinite {p. sample_present p}"
proof -
  let ?p = "path_append [100] [97, 46, 98]"
  have p: "?p = [100, 47, 97, 46, 98]" by (simp add: path_append_def is_absolute_def has_filename_def)
  have c: "copy_of [100] [100, 47, 97, 46, 98] 1 = [100, 47, 97, 32, 40, 49, 41, 46, 98]"
    "copy_of [100] [100, 47, 97, 46, 98] 2 = [100, 47, 97, 32, 40, 50, 41, 46, 98]"
    by (simp_all add: copy_of_def path_append_def is_absolute_def has_filename_def numbered_def to_string.simps
        stem_def extension_def extension_at_def filename_def)
  have "\<forall>k. 1 \<le> k \<and> k < 2 \<longrightarrow> k = (1 :: nat)" by auto
  moreover have "sample_present ?p" "sample_present (copy_of [100] ?p 1)" "\<not> sample_present (copy_of [100] ?p 2)"
    unfolding p c by (simp_all add: sample_present_def)
  moreover have "2 < INT_MAX" "(1 :: nat) \<le> 2" by (simp_all add: INT_MAX_def)
  ultimately show ?thesis
    using sample_folder resolveFilePath_fresh [OF refl, of sample_present "[100]" "[97, 46, 98]" 2 Overflow]
    unfolding c(2) [folded p, symmetric] by blast
qed

text \<open>
  C23. A file name without a separator is stored in the folder itself: whatever path is returned
  is the folder followed by one name. A name with a separator is not checked: an absolute name
  replaces the folder, and a relative one is appended as it is, so that the peer who makes the
  offer chooses the directory.
\<close>

theorem resolveFilePath_folder:
  assumes "resolveFilePath exists dir fname = Inr r"
  shows "(slash \<notin> set fname \<longrightarrow> (\<exists>nm. slash \<notin> set nm \<and> r = path_append dir nm))
    \<and> (exists (path_append dir fname) = Inr False \<longrightarrow>
        r = (if is_absolute fname then fname
             else if has_filename dir then dir @ [slash] @ fname else dir @ fname))"
proof (intro conjI impI)
  show "\<exists>nm. slash \<notin> set nm \<and> r = path_append dir nm" if "slash \<notin> set fname"
    using resolveFilePath_result(2) [OF assms] that slash_notin_numbered by blast
  show "r = (if is_absolute fname then fname
      else if has_filename dir then dir @ [slash] @ fname else dir @ fname)"
    if "exists (path_append dir fname) = Inr False"
    using resolveFilePath_free [of exists dir fname, OF that] assms by (simp add: path_append_def)
qed

theorem resolveFilePath_folder_witness:
  "resolveFilePath (\<lambda>p. Inr False) [100] [47, 101] = Inr [47, 101]
   \<and> resolveFilePath (\<lambda>p. Inr False) [100] [101] = Inr [100, 47, 101]"
  using resolveFilePath_folder [of "\<lambda>p. Inr False" "[100]" "[47, 101]" "[47, 101]"]
    resolveFilePath_folder [of "\<lambda>p. Inr False" "[100]" "[101]" "[100, 47, 101]"]
  by (simp add: resolveFilePath_def path_append_def is_absolute_def has_filename_def)

text \<open>
  The downloads folder is the directory that \<open>XDG_DOWNLOAD_DIR\<close> names, if it names one; else
  it is the directory that \<^verbatim>\<open>xdg-user-dir\<close> prints on its first line, provided that this is not the
  home directory; in every other case it is the current directory. Each branch is taken exactly
  under its condition, for a line of less than 511 bytes.
\<close>

lemma getDownloadsFolder_choice:
  assumes "10 \<notin> set line" and "0 \<notin> set line" and "length line < 511"
    and "fe_pipe env = Some (line @ [10] @ tail)"
  shows "getDownloadsFolder env =
    (case fe_xdg env of
       Some xdg \<Rightarrow> if fe_is_directory env xdg then xdg
         else if fe_is_directory env line \<and> \<not> (\<exists>home. fe_home env = Some home \<and> path_equal line home)
         then line else [dot]
     | None \<Rightarrow>
         if fe_is_directory env line \<and> \<not> (\<exists>home. fe_home env = Some home \<and> path_equal line home)
         then line else [dot])"
proof -
  have l: "takeWhile (\<lambda>c. c \<noteq> 10) (line @ [10] @ tail) = line"
    using assms(1) by (subst takeWhile_append2) auto
  have "fgets 512 (line @ [10] @ tail) = Some (line @ [10])"
    using assms(3) unfolding fgets_def l by simp
  moreover have "chomp (c_string (line @ [10])) = line"
  proof -
    have "c_string (line @ [10]) = line @ [10]"
      using assms(2) by (auto simp: c_string_def takeWhile_eq_all_conv)
    then show ?thesis by (simp add: chomp_def)
  qed
  ultimately show ?thesis
    using assms(4) by (auto simp: getDownloadsFolder_def Let_def split: option.splits)
qed

end
