(* ===== verification/Streams.thy ===== *)
theory Streams
  imports Prelude
begin

text \<open>
  The file streams and the digest that both ends of a transfer use
  (\<open>src/src/core/transfer.cpp\<close>). A stream opened for reading is the content of the file, the
  read position and whether the stream is still good; the content is what was on disk when the
  file was opened. The digest functions of OpenSSL are a parameter, and what the program relies
  on is the predicate \<open>evp_sha256\<close>: feeding a message piece by piece gives the digest of the
  whole message, which has 32 bytes.
\<close>

abbreviation MAX_BUFFER_SIZE :: nat where "MAX_BUFFER_SIZE \<equiv> 32768"

text \<open>A disk maps the path of every file that can be opened to its content.\<close>

type_synonym disk = "bytes \<Rightarrow> bytes option"

section \<open>Reading\<close>

record instream =
  in_data :: bytes
  in_pos :: nat
  in_good :: bool

definition open_in :: "bytes \<Rightarrow> instream" where
  "open_in content = \<lparr>in_data = content, in_pos = 0, in_good = True\<rparr>"

text \<open>
  \<open>read\<close> on a good stream delivers as many bytes as are left, at most \<open>n\<close>, and a short read sets
  \<open>eofbit\<close> and \<open>failbit\<close>; on a stream that is not good it delivers nothing. The first component
  is what \<open>gcount()\<close> counts.
\<close>

definition read_in :: "nat \<Rightarrow> instream \<Rightarrow> bytes \<times> instream" where
  "read_in n f =
     (if in_good f then
        let bs = take n (drop (in_pos f) (in_data f))
        in (bs, f\<lparr>in_pos := in_pos f + length bs, in_good := (length bs = n)\<rparr>)
      else ([], f))"

text \<open>\<open>clear()\<close> followed by \<open>seekg(0)\<close>.\<close>

definition rewind :: "instream \<Rightarrow> instream" where
  "rewind f = f\<lparr>in_good := True, in_pos := 0\<rparr>"

section \<open>The digest\<close>

record 'ctx evp =
  evp_init :: 'ctx
  evp_update :: "'ctx \<Rightarrow> bytes \<Rightarrow> 'ctx"
  evp_final :: "'ctx \<Rightarrow> bytes"

definition evp_sha256 :: "'ctx evp \<Rightarrow> (bytes \<Rightarrow> bytes) \<Rightarrow> bool" where
  "evp_sha256 evp sha \<longleftrightarrow>
     (\<forall>pieces. evp_final evp (foldl (evp_update evp) (evp_init evp) pieces) = sha (concat pieces))
     \<and> (\<forall>m. length (sha m) = 32)"

text \<open>The loop \<open>while (file) { file.read(...); if (gcount > 0) EVP_DigestUpdate(...); }\<close>.\<close>

function digest_loop :: "'ctx evp \<Rightarrow> 'ctx \<Rightarrow> instream \<Rightarrow> 'ctx \<times> instream" where
  "digest_loop evp ctx f =
     (if in_good f then
        let (bs, f') = read_in MAX_BUFFER_SIZE f
        in digest_loop evp (if bs \<noteq> [] then evp_update evp ctx bs else ctx) f'
      else (ctx, f))"
  by pat_completeness auto
termination
  by (relation "measure (\<lambda>(evp, ctx, f). if in_good f then Suc (length (in_data f) - in_pos f) else 0)")
    (auto simp: read_in_def Let_def split: if_splits)

declare digest_loop.simps [simp del]

text \<open>Init, loop, final: the digest and the stream afterwards.\<close>

definition file_digest :: "'ctx evp \<Rightarrow> instream \<Rightarrow> bytes \<times> instream" where
  "file_digest evp f = (let (ctx, f') = digest_loop evp (evp_init evp) f in (evp_final evp ctx, f'))"

section \<open>Lemmas\<close>

lemma open_in_simps [simp]:
  "in_data (open_in c) = c" "in_pos (open_in c) = 0" "in_good (open_in c)"
  by (simp_all add: open_in_def)

lemma read_in_data [simp]: "in_data (snd (read_in n f)) = in_data f"
  by (simp add: read_in_def Let_def)

lemma digest_loop_pieces:
  "\<exists>pieces. fst (digest_loop evp ctx f) = foldl (evp_update evp) ctx pieces
     \<and> concat pieces = (if in_good f then drop (in_pos f) (in_data f) else [])"
proof (induction evp ctx f rule: digest_loop.induct)
  case (1 evp ctx f)
  show ?case
  proof (cases "in_good f")
    case True
    obtain bs f' where r: "read_in MAX_BUFFER_SIZE f = (bs, f')" by fastforce
    let ?ctx = "if bs \<noteq> [] then evp_update evp ctx bs else ctx"
    obtain ps where ps: "fst (digest_loop evp ?ctx f') = foldl (evp_update evp) ?ctx ps"
      "concat ps = (if in_good f' then drop (in_pos f') (in_data f') else [])"
      using 1 [OF True r [symmetric] refl] by blast
    have bs: "bs = take MAX_BUFFER_SIZE (drop (in_pos f) (in_data f))"
      and f': "in_pos f' = in_pos f + length bs" "in_data f' = in_data f"
        "in_good f' = (length bs = MAX_BUFFER_SIZE)"
      using r True by (auto simp: read_in_def Let_def)
    have "bs @ concat ps = drop (in_pos f) (in_data f)"
    proof (cases "length bs = MAX_BUFFER_SIZE")
      case full: True
      then have "drop (in_pos f') (in_data f') = drop MAX_BUFFER_SIZE (drop (in_pos f) (in_data f))"
        by (simp only: f' drop_drop add.commute)
      with full ps(2) bs f'(3) show ?thesis by (simp only: append_take_drop_id if_True refl)
    next
      case False
      then have "length (drop (in_pos f) (in_data f)) < MAX_BUFFER_SIZE" using bs by simp
      with False ps(2) bs f'(3) show ?thesis by simp
    qed
    then have "fst (digest_loop evp ctx f) = foldl (evp_update evp) ctx (if bs = [] then ps else bs # ps)
        \<and> concat (if bs = [] then ps else bs # ps) = drop (in_pos f) (in_data f)"
      using ps True r by (subst digest_loop.simps) (auto simp del: drop_drop)
    then show ?thesis unfolding if_P [OF True] by blast
  next
    case False
    then show ?thesis by (intro exI [of _ "[]"]) (simp add: digest_loop.simps)
  qed
qed

lemma file_digest_sha:
  assumes "evp_sha256 evp sha"
  shows "fst (file_digest evp f) = sha (if in_good f then drop (in_pos f) (in_data f) else [])"
proof -
  obtain pieces where "fst (digest_loop evp (evp_init evp) f)
      = foldl (evp_update evp) (evp_init evp) pieces"
    "concat pieces = (if in_good f then drop (in_pos f) (in_data f) else [])"
    using digest_loop_pieces by metis
  moreover have "fst (file_digest evp f) = evp_final evp (fst (digest_loop evp (evp_init evp) f))"
    by (simp add: file_digest_def case_prod_beta)
  moreover have "evp_final evp (foldl (evp_update evp) (evp_init evp) pieces) = sha (concat pieces)"
    using assms by (simp add: evp_sha256_def)
  ultimately show ?thesis by (simp only:)
qed

lemma digest_loop_data: "in_data (snd (digest_loop evp ctx f)) = in_data f"
proof (induction evp ctx f rule: digest_loop.induct)
  case (1 evp ctx f)
  show ?case
  proof (cases "in_good f")
    case True
    obtain bs f' where r: "read_in MAX_BUFFER_SIZE f = (bs, f')" by fastforce
    with 1 [OF True r [symmetric] refl] True show ?thesis
      using read_in_data [of MAX_BUFFER_SIZE f] by (subst digest_loop.simps) simp
  qed (simp add: digest_loop.simps)
qed

lemma file_digest_data: "in_data (snd (file_digest evp f)) = in_data f"
  using digest_loop_data [of evp "evp_init evp" f] by (simp add: file_digest_def case_prod_beta)

lemma file_digest_rewind: "rewind (snd (file_digest evp (open_in content))) = open_in content"
  using file_digest_data [of evp "open_in content"] by (simp add: rewind_def open_in_def)

lemma digest_loop_end: "\<not> in_good (snd (digest_loop evp ctx f))"
proof (induction evp ctx f rule: digest_loop.induct)
  case (1 evp ctx f)
  then show ?case
    by (cases "in_good f"; subst digest_loop.simps) (auto split: prod.splits)
qed

lemma file_digest_end: "\<not> in_good (snd (file_digest evp f))"
  by (simp add: file_digest_def case_prod_beta digest_loop_end)

lemma length_sha: "evp_sha256 evp sha \<Longrightarrow> length (sha m) = 32"
  by (simp add: evp_sha256_def)

text \<open>
  A concrete digest with the streaming property, for the examples: the message padded with zero
  bytes and cut to 32 bytes.
\<close>

definition pad32 :: "bytes \<Rightarrow> bytes" where
  "pad32 m = take 32 (m @ replicate 32 0)"

definition pad_evp :: "bytes evp" where
  "pad_evp = \<lparr>evp_init = [], evp_update = (@), evp_final = pad32\<rparr>"

lemma pad_evp_sha256: "evp_sha256 pad_evp pad32"
proof -
  have "foldl (@) xs pieces = xs @ concat pieces" for xs and pieces :: "bytes list"
    by (induction pieces arbitrary: xs) auto
  then show ?thesis by (auto simp: evp_sha256_def pad_evp_def pad32_def)
qed

section \<open>Property\<close>

text \<open>
  The block-wise loop that both ends run over a freshly opened file computes the digest of
  the whole content, for every length of the file (also an exact multiple of the block size,
  where the loop makes one more empty read), and the stream is then at its end with its error
  bits set, from where \<open>clear\<close> and \<open>seekg\<close> bring it back to the start.
\<close>

theorem file_digest_correct:
  assumes "evp_sha256 evp sha"
  shows "fst (file_digest evp (open_in content)) = sha content
    \<and> \<not> in_good (snd (file_digest evp (open_in content)))
    \<and> rewind (snd (file_digest evp (open_in content))) = open_in content"
  using file_digest_sha [OF assms, of "open_in content"]
  by (simp add: file_digest_end file_digest_rewind)

theorem file_digest_correct_witness:
  "fst (file_digest pad_evp (open_in [1, 2, 3])) = [1, 2, 3] @ replicate 29 0"
  using file_digest_correct [OF pad_evp_sha256, of "[1, 2, 3]"] by (simp add: pad32_def)

end
