(* ===== verification/Machine.thy ===== *)
theory Machine
  imports Prelude
begin

text \<open>
  The interface between a component that runs as a state machine and the statements about all
  its executions: a predicate that holds at the start and is kept by every step holds in every
  reachable state and along every run. The components interpret the locale with their own step
  relation and invariant. The theory also fixes how completions of asynchronous operations
  report errors.
\<close>

text \<open>
  The error codes the handlers tell apart: an operation that was cancelled because its socket
  or timer was closed, and every other error. A completion handler gets \<open>None\<close> on success.
\<close>

datatype asio_error = operation_aborted | other_error

type_synonym ec = "asio_error option"

locale state_machine =
  fixes init :: "'s \<Rightarrow> bool"
    and step :: "'s \<Rightarrow> 's \<Rightarrow> bool"
    and inv :: "'s \<Rightarrow> bool"
  assumes init_inv: "init s \<Longrightarrow> inv s"
    and step_inv: "inv s \<Longrightarrow> step s t \<Longrightarrow> inv t"
begin

lemma steps_inv: "step\<^sup>*\<^sup>* s t \<Longrightarrow> inv s \<Longrightarrow> inv t"
  by (induction rule: rtranclp_induct) (auto intro: step_inv)

lemma reachable_inv: "init s \<Longrightarrow> step\<^sup>*\<^sup>* s t \<Longrightarrow> inv t"
  by (blast intro: steps_inv init_inv)

lemma invariant_consequence:
  "init s \<Longrightarrow> step\<^sup>*\<^sup>* s t \<Longrightarrow> (\<And>x. inv x \<Longrightarrow> P x) \<Longrightarrow> P t"
  by (blast intro: reachable_inv)

end

end
