(* ===== verification/Sender.thy ===== *)
theory Sender
  imports Payloads Paths Streams Machine
begin

text \<open>
  The sending end of a transfer, \<open>TransferSender\<close> of \<open>src/include/transfer.h\<close> and
  \<open>src/src/core/transfer.cpp\<close>. Every lambda handed to Asio is a function of its own; the
  operations it may start are the constructors of \<open>sender_op\<close>, with what the lambda captures.
  A handler maps the state, the error code and the bytes the operation has read to the new state
  and the effects in order: messages written, operations started, callbacks made. The callbacks
  are taken to be set, as \<open>NetTransfer::sendFile\<close> sets them.

  \<^item> \<open>asio::buffer(buffer, n)\<close> on the member array is its overload for arrays, which never
    covers more than the array, so a read fills at most \<open>MAX_BUFFER_SIZE\<close> bytes.
  \<^item> \<open>asio::write\<close> throws when the socket is closed or the write fails, and no handler catches
    it.
  \<^item> The result of \<open>deserializeHeader\<close> is not looked at: after a rejected header the local
    struct is read without having been written.
\<close>

section \<open>State\<close>

record TransferSender =
  ts_target_ip :: bytes
  ts_target_port :: u16
  ts_file_path :: bytes
  ts_session_id :: u64
  ts_file :: "instream option"  \<comment> \<open>\<open>None\<close> while no file is open\<close>
  ts_sha256 :: bytes
  ts_file_size :: u64
  ts_bytes_sent :: u64
  ts_device_name :: bytes
  ts_buffer :: bytes
  ts_socket_open :: bool

datatype sender_op =
    ConnectTo bytes u16
  | ClientHandshake
  | ReadReply
  | DrainAccept u32
  | ReadReject BaseHeader
  | WriteChunk bytes
  | ReadAck
  | ReadAckBody BaseHeader

datatype sender_effect =
    SStart sender_op
  | SWrite bytes
  | SProgress u64 u64
  | SComplete bool bytes

record sender_env =
  se_file :: "bytes \<Rightarrow> bytes option"  \<comment> \<open>the content of a path that can be opened\<close>
  se_address_ok :: bool
  se_write_ok :: bool
  se_close_ok :: bool

text \<open>How many bytes an operation reads into the buffer when it succeeds.\<close>

fun sender_reads :: "sender_op \<Rightarrow> nat" where
  "sender_reads ReadReply = HEADER_SIZE"
| "sender_reads ReadAck = HEADER_SIZE"
| "sender_reads (DrainAccept n) = min MAX_BUFFER_SIZE (unat n)"
| "sender_reads (ReadReject header) = min MAX_BUFFER_SIZE (unat (payload_len header))"
| "sender_reads (ReadAckBody header) = min MAX_BUFFER_SIZE (unat (payload_len header))"
| "sender_reads _ = 0"

section \<open>Operations\<close>

text \<open>The session id is drawn at random; members without an initialiser hold arbitrary values.\<close>

definition newTransferSender ::
  "bytes \<Rightarrow> u16 \<Rightarrow> bytes \<Rightarrow> bytes \<Rightarrow> u64 \<Rightarrow> bytes \<Rightarrow> bytes \<Rightarrow> u64 \<Rightarrow> TransferSender" where
  "newTransferSender ip port path name sid garbage garbage_sha garbage_size =
     \<lparr>ts_target_ip = ip, ts_target_port = port, ts_file_path = path, ts_session_id = sid,
      ts_file = None, ts_sha256 = garbage_sha, ts_file_size = garbage_size, ts_bytes_sent = 0,
      ts_device_name = name, ts_buffer = garbage, ts_socket_open = False\<rparr>"

text \<open>
  Opening the file, \<open>seekg\<close> to its end and \<open>tellg\<close>. When the stream is still open from an earlier
  call, \<open>open\<close> fails and leaves it open, and \<open>tellg\<close> on the failed stream gives -1.
\<close>

definition open_file :: "sender_env \<Rightarrow> TransferSender \<Rightarrow> (instream \<times> u64) option" where
  "open_file env st =
     (case ts_file st of
        Some f \<Rightarrow> Some (f\<lparr>in_good := False\<rparr>, - 1)
      | None \<Rightarrow> map_option (\<lambda>content. (open_in content, of_nat (length content))) (se_file env (ts_file_path st)))"

definition startSender ::
  "'ctx evp \<Rightarrow> sender_env \<Rightarrow> TransferSender \<Rightarrow> (bool \<times> TransferSender \<times> sender_effect list) run" where
  "startSender evp env st =
     (case open_file env st of
        None \<Rightarrow> Inr (False, st, [])
      | Some (f, file_size) \<Rightarrow>
          let (sha256, f) = file_digest evp f;
              st = st\<lparr>ts_file_size := file_size, ts_sha256 := sha256, ts_file := Some (rewind f)\<rparr>
          in if se_address_ok env
             then Inr (True, st\<lparr>ts_socket_open := True\<rparr>,
                       [SStart (ConnectTo (ts_target_ip st) (ts_target_port st))])
             else Inl Uncaught)"

definition store_read :: "bytes \<Rightarrow> TransferSender \<Rightarrow> TransferSender" where
  "store_read bs st = st\<lparr>ts_buffer := overwrite 0 bs (ts_buffer st)\<rparr>"

text \<open>A synchronous write, then whatever follows it.\<close>

definition sync_write ::
  "sender_env \<Rightarrow> TransferSender \<Rightarrow> bytes \<Rightarrow> sender_op \<Rightarrow> (TransferSender \<times> sender_effect list) run" where
  "sync_write env st message next =
     (if se_write_ok env \<and> ts_socket_open st then Inr (st, [SWrite message, SStart next])
      else Inl Uncaught)"

definition sendOffer ::
  "sender_env \<Rightarrow> TransferSender \<Rightarrow> (TransferSender \<times> sender_effect list) run" where
  "sendOffer env st =
     (let payload = \<lparr>op_file_size = ts_file_size st, op_resume_offset = 0,
                     op_sha256 = ts_sha256 st, op_file_name = filename (ts_file_path st),
                     op_device_name = ts_device_name st\<rparr>
      in sync_write env st (frame TRANSFER_OFFER (ts_session_id st) (serializeOffer payload)) ReadReply)"

text \<open>A read from a stream that is not open delivers nothing.\<close>

definition next_block :: "TransferSender \<Rightarrow> bytes \<times> TransferSender" where
  "next_block st =
     (case ts_file st of
        None \<Rightarrow> ([], st)
      | Some f \<Rightarrow>
          let (bs, f') = read_in (MAX_BUFFER_SIZE - HEADER_SIZE) f
          in (bs, st\<lparr>ts_file := Some f', ts_buffer := overwrite 0 bs (ts_buffer st)\<rparr>))"

definition sendNextChunk ::
  "sender_env \<Rightarrow> TransferSender \<Rightarrow> (TransferSender \<times> sender_effect list) run" where
  "sendNextChunk env st =
     (let (bs, st) = next_block st in
      if 0 < length bs
      then Inr (st, [SStart (WriteChunk
             (frame DATA_CHUNK (ts_session_id st) (take (length bs) (ts_buffer st))))])
      else sync_write env st
             (frame TRANSFER_DONE (ts_session_id st) (serializeDone \<lparr>pd_sha256 = ts_sha256 st\<rparr>))
             ReadAck)"

definition stopSender :: "sender_env \<Rightarrow> TransferSender \<Rightarrow> bool \<times> TransferSender" where
  "stopSender env st =
     (if ts_socket_open st \<and> \<not> se_close_ok env then (False, st)
      else (True, st\<lparr>ts_socket_open := False, ts_file := None\<rparr>))"

section \<open>Completion handlers\<close>

definition on_connect :: "TransferSender \<Rightarrow> ec \<Rightarrow> (TransferSender \<times> sender_effect list) run" where
  "on_connect st ec =
     (if ec \<noteq> None then Inr (st, [SComplete False []]) else Inr (st, [SStart ClientHandshake]))"

definition on_handshake ::
  "sender_env \<Rightarrow> TransferSender \<Rightarrow> ec \<Rightarrow> (TransferSender \<times> sender_effect list) run" where
  "on_handshake env st ec =
     (if ec \<noteq> None then Inr (st, [SComplete False (ts_file_path st)]) else sendOffer env st)"

definition on_reply ::
  "sender_env \<Rightarrow> TransferSender \<Rightarrow> ec \<Rightarrow> (TransferSender \<times> sender_effect list) run" where
  "on_reply env st ec =
     (if ec \<noteq> None then Inr (st, [SComplete False (ts_file_path st)])
      else
        andThen (deserializeHeader (ts_buffer st) None) (\<lambda>(_, header).
        andThen (initialised header) (\<lambda>header.
        if msg_type header = TRANSFER_ACCEPT then
          if payload_len header = 0 then sendNextChunk env st
          else Inr (st, [SStart (DrainAccept (payload_len header))])
        else if msg_type header = TRANSFER_REJECT then Inr (st, [SStart (ReadReject header)])
        else Inr (st, []))))"

text \<open>The handler of the drained payload ignores its error code.\<close>

definition on_drained ::
  "sender_env \<Rightarrow> TransferSender \<Rightarrow> ec \<Rightarrow> (TransferSender \<times> sender_effect list) run" where
  "on_drained env st ec = sendNextChunk env st"

definition on_reject ::
  "TransferSender \<Rightarrow> BaseHeader \<Rightarrow> ec \<Rightarrow> (TransferSender \<times> sender_effect list) run" where
  "on_reject st header ec =
     (if ec \<noteq> None then Inr (st, [SComplete False (ts_file_path st)])
      else
        andThen (deserializeReject (ts_buffer st) (unat (payload_len header)) None) (\<lambda>(_, rp).
        andThen (initialised rp) (\<lambda>rp.
        Inr (st, [SComplete False (ts_file_path st)]))))"

definition on_chunk_written ::
  "sender_env \<Rightarrow> TransferSender \<Rightarrow> ec \<Rightarrow> nat \<Rightarrow> (TransferSender \<times> sender_effect list) run" where
  "on_chunk_written env st ec n =
     (if ec \<noteq> None then Inr (st, [SComplete False (ts_file_path st)])
      else
        let st = st\<lparr>ts_bytes_sent := ts_bytes_sent st + (of_nat n - of_nat HEADER_SIZE)\<rparr> in
        andThen (sendNextChunk env st) (\<lambda>(st', fx).
        Inr (st', SProgress (ts_bytes_sent st) (ts_file_size st) # fx)))"

definition on_ack :: "TransferSender \<Rightarrow> ec \<Rightarrow> (TransferSender \<times> sender_effect list) run" where
  "on_ack st ec =
     (if ec \<noteq> None then Inr (st, [SComplete False (ts_file_path st)])
      else
        andThen (deserializeHeader (ts_buffer st) None) (\<lambda>(_, header).
        andThen (initialised header) (\<lambda>header.
        if msg_type header = TRANSFER_ACK then Inr (st, [SStart (ReadAckBody header)])
        else Inr (st, []))))"

definition on_ack_body ::
  "TransferSender \<Rightarrow> BaseHeader \<Rightarrow> ec \<Rightarrow> (TransferSender \<times> sender_effect list) run" where
  "on_ack_body st header ec =
     (if ec \<noteq> None then Inr (st, [SComplete False (ts_file_path st)])
      else
        andThen (deserializeAck (ts_buffer st) (unat (payload_len header)) None) (\<lambda>(_, ap).
        andThen (initialised ap) (\<lambda>ap.
        if ap_checksum_ok ap then Inr (st, [SComplete True (ts_file_path st)])
        else Inr (st, []))))"

text \<open>
  The completion of an operation: what it has read is in the buffer before its handler runs.
\<close>

definition sender_handler ::
  "sender_env \<Rightarrow> TransferSender \<Rightarrow> sender_op \<Rightarrow> ec \<Rightarrow> bytes
     \<Rightarrow> (TransferSender \<times> sender_effect list) run" where
  "sender_handler env st op ec data =
     (let st = store_read data st in
      case op of
        ConnectTo _ _ \<Rightarrow> on_connect st ec
      | ClientHandshake \<Rightarrow> on_handshake env st ec
      | ReadReply \<Rightarrow> on_reply env st ec
      | DrainAccept _ \<Rightarrow> on_drained env st ec
      | ReadReject header \<Rightarrow> on_reject st header ec
      | WriteChunk message \<Rightarrow> on_chunk_written env st ec (length message)
      | ReadAck \<Rightarrow> on_ack st ec
      | ReadAckBody header \<Rightarrow> on_ack_body st header ec)"

end
