(* ===== verification/Sender_System.thy ===== *)
theory Sender_System
  imports Sender "HOL-Library.Sublist"
begin

text \<open>
  The sender as it runs against an arbitrary peer: operations complete with any error code and
  any bytes, and \<open>stop\<close> may be called at any time. The invariant says at each outstanding
  operation how much of the one honest message stream is on the wire, where the file is read,
  and what progress has been reported.
\<close>

section \<open>Blocks of a file\<close>

definition blocks :: "nat \<Rightarrow> bytes \<Rightarrow> bytes list" where
  "blocks n c = map (\<lambda>k. take n (drop (k * n) c)) [0..<(length c + n - 1) div n]"

lemma less_ceiling_iff: "0 < (n :: nat) \<Longrightarrow> k < (l + n - Suc 0) div n \<longleftrightarrow> k * n < l"
proof -
  assume n: "0 < n"
  have "k < (l + n - Suc 0) div n \<longleftrightarrow> Suc k * n \<le> l + n - Suc 0"
    using n by (simp add: less_eq_div_iff_mult_less_eq flip: Suc_le_eq)
  also have "\<dots> \<longleftrightarrow> k * n < l" using n by auto
  finally show ?thesis .
qed

lemma less_length_blocks: "0 < n \<Longrightarrow> k < length (blocks n c) \<longleftrightarrow> k * n < length c"
  by (simp add: blocks_def less_ceiling_iff)

lemma nth_blocks: "k < length (blocks n c) \<Longrightarrow> blocks n c ! k = take n (drop (k * n) c)"
  by (simp add: blocks_def)

lemma concat_take_blocks: "k \<le> length (blocks n c) \<Longrightarrow> concat (take k (blocks n c)) = take (k * n) c"
proof (induction k)
  case (Suc k)
  then have k: "k < length (blocks n c)" by simp
  have "concat (take (Suc k) (blocks n c)) = take (k * n) c @ blocks n c ! k"
    using k Suc by (simp add: take_Suc_conv_app_nth)
  also have "\<dots> = take (k * n + n) c" by (simp only: nth_blocks [OF k] take_add)
  finally show ?case by (simp add: add.commute)
qed simp

lemma length_blocks_mult: "0 < n \<Longrightarrow> length c \<le> length (blocks n c) * n"
  using less_length_blocks [of n "length (blocks n c)" c] by simp

lemma concat_blocks: "0 < n \<Longrightarrow> concat (blocks n c) = c"
  using concat_take_blocks [of "length (blocks n c)" n c] length_blocks_mult [of n c] by simp

lemma blocks_nonempty: "0 < n \<Longrightarrow> b \<in> set (blocks n c) \<Longrightarrow> b \<noteq> [] \<and> length b \<le> n"
  by (auto simp: blocks_def less_ceiling_iff simp flip: not_less)

section \<open>The honest message stream\<close>

definition offer_of :: "TransferSender \<Rightarrow> OfferPayload" where
  "offer_of st = \<lparr>op_file_size = ts_file_size st, op_resume_offset = 0, op_sha256 = ts_sha256 st,
     op_file_name = filename (ts_file_path st), op_device_name = ts_device_name st\<rparr>"

definition offer_message :: "TransferSender \<Rightarrow> bytes" where
  "offer_message st = frame TRANSFER_OFFER (ts_session_id st) (serializeOffer (offer_of st))"

abbreviation CHUNK :: nat where "CHUNK \<equiv> 32746"

definition chunk_messages :: "TransferSender \<Rightarrow> bytes \<Rightarrow> bytes list" where
  "chunk_messages st c = map (frame DATA_CHUNK (ts_session_id st)) (blocks CHUNK c)"

definition done_message :: "TransferSender \<Rightarrow> bytes" where
  "done_message st =
     frame TRANSFER_DONE (ts_session_id st) (serializeDone \<lparr>pd_sha256 = ts_sha256 st\<rparr>)"

definition honest_stream :: "TransferSender \<Rightarrow> bytes \<Rightarrow> bytes" where
  "honest_stream st c = offer_message st @ concat (chunk_messages st c) @ done_message st"

section \<open>Executions\<close>

record sender_sys =
  ss_state :: TransferSender
  ss_ops :: "sender_op list"
  ss_log :: "sender_effect list"

fun started_by :: "sender_effect \<Rightarrow> sender_op list" where
  "started_by (SStart op) = [op]"
| "started_by _ = []"

fun wire_of :: "sender_effect \<Rightarrow> bytes" where
  "wire_of (SWrite m) = m"
| "wire_of (SStart (WriteChunk m)) = m"
| "wire_of _ = []"

fun progress_of :: "sender_effect \<Rightarrow> (u64 \<times> u64) list" where
  "progress_of (SProgress x y) = [(x, y)]"
| "progress_of _ = []"

fun completion_of :: "sender_effect \<Rightarrow> (bool \<times> bytes) list" where
  "completion_of (SComplete ok path) = [(ok, path)]"
| "completion_of _ = []"

definition wire :: "sender_effect list \<Rightarrow> bytes" where
  "wire log = concat (map wire_of log)"

definition progress :: "sender_effect list \<Rightarrow> (u64 \<times> u64) list" where
  "progress log = concat (map progress_of log)"

definition completions :: "sender_effect list \<Rightarrow> (bool \<times> bytes) list" where
  "completions log = concat (map completion_of log)"

definition perform :: "sender_effect list \<Rightarrow> sender_sys \<Rightarrow> sender_sys" where
  "perform fx s =
     s\<lparr>ss_ops := ss_ops s @ concat (map started_by fx), ss_log := ss_log s @ fx\<rparr>"

definition sender_init :: "TransferSender \<Rightarrow> bytes \<Rightarrow> sender_sys \<Rightarrow> bool" where
  "sender_init st0 c s \<longleftrightarrow> (\<exists>fx. length (ts_buffer st0) = MAX_BUFFER_SIZE
     \<and> ts_file st0 = Some (open_in c) \<and> ts_file_size st0 = of_nat (length c)
     \<and> ts_bytes_sent st0 = 0
     \<and> fx = [SStart (ConnectTo (ts_target_ip st0) (ts_target_port st0))]
     \<and> s = perform fx \<lparr>ss_state = st0, ss_ops = [], ss_log = []\<rparr>)"

inductive sender_step :: "sender_sys \<Rightarrow> sender_sys \<Rightarrow> bool" where
  complete: "op \<in> set (ss_ops s) \<Longrightarrow> length data \<le> sender_reads op \<Longrightarrow>
    ec = None \<longrightarrow> length data = sender_reads op \<Longrightarrow>
    sender_handler env (ss_state s) op ec data = Inr (st, fx) \<Longrightarrow>
    sender_step s (perform fx (s\<lparr>ss_state := st, ss_ops := remove1 op (ss_ops s)\<rparr>))"
| stop: "sender_step s (s\<lparr>ss_state := snd (stopSender env (ss_state s))\<rparr>)"

section \<open>The invariant\<close>

text \<open>What no handler changes.\<close>

definition same_job :: "TransferSender \<Rightarrow> TransferSender \<Rightarrow> bool" where
  "same_job st0 st \<longleftrightarrow> ts_file_path st = ts_file_path st0 \<and> ts_session_id st = ts_session_id st0
     \<and> ts_sha256 st = ts_sha256 st0 \<and> ts_file_size st = ts_file_size st0
     \<and> ts_device_name st = ts_device_name st0"

definition progress_after :: "bytes \<Rightarrow> nat \<Rightarrow> u64 \<times> u64" where
  "progress_after c k = (of_nat (min (k * CHUNK) (length c)), of_nat (length c))"

definition reported :: "bytes \<Rightarrow> nat \<Rightarrow> TransferSender \<Rightarrow> sender_effect list \<Rightarrow> bool" where
  "reported c k st log \<longleftrightarrow> ts_bytes_sent st = fst (progress_after c k)
     \<and> progress log = map (progress_after c) [1..<Suc k]"

definition read_up_to :: "bytes \<Rightarrow> nat \<Rightarrow> TransferSender \<Rightarrow> bool" where
  "read_up_to c k st \<longleftrightarrow> ts_file st = None \<or>
     ts_file st = Some \<lparr>in_data = c, in_pos = min (k * CHUNK) (length c), in_good = (k * CHUNK \<le> length c)\<rparr>"

definition sent_chunks :: "TransferSender \<Rightarrow> bytes \<Rightarrow> nat \<Rightarrow> bytes" where
  "sent_chunks st c k = offer_message st @ concat (take k (chunk_messages st c))"

fun at_op :: "TransferSender \<Rightarrow> bytes \<Rightarrow> TransferSender \<Rightarrow> sender_effect list \<Rightarrow> sender_op \<Rightarrow> bool" where
  "at_op st0 c st log (ConnectTo _ _) \<longleftrightarrow> wire log = [] \<and> read_up_to c 0 st \<and> reported c 0 st log"
| "at_op st0 c st log ClientHandshake \<longleftrightarrow> wire log = [] \<and> read_up_to c 0 st \<and> reported c 0 st log"
| "at_op st0 c st log (WriteChunk m) \<longleftrightarrow> (\<exists>k < length (blocks CHUNK c).
     m = chunk_messages st0 c ! k \<and> wire log = sent_chunks st0 c (Suc k)
     \<and> read_up_to c (Suc k) st \<and> reported c k st log)"
| "at_op st0 c st log ReadAck \<longleftrightarrow> wire log = honest_stream st0 c
     \<and> reported c (length (blocks CHUNK c)) st log"
| "at_op st0 c st log (ReadAckBody _) \<longleftrightarrow> wire log = honest_stream st0 c
     \<and> reported c (length (blocks CHUNK c)) st log"
| "at_op st0 c st log _ \<longleftrightarrow> wire log = offer_message st0 \<and> read_up_to c 0 st \<and> reported c 0 st log"

definition finished :: "TransferSender \<Rightarrow> bytes \<Rightarrow> sender_effect list \<Rightarrow> bool" where
  "finished st0 c log \<longleftrightarrow> prefix (wire log) (honest_stream st0 c)
     \<and> (\<exists>k \<le> length (blocks CHUNK c). progress log = map (progress_after c) [1..<Suc k])
     \<and> (\<forall>ok path. completions log = [(ok, path)] \<and> ok \<longrightarrow>
          path = ts_file_path st0 \<and> wire log = honest_stream st0 c
          \<and> progress log = map (progress_after c) [1..<Suc (length (blocks CHUNK c))])
     \<and> length (completions log) \<le> 1"

definition sender_inv :: "TransferSender \<Rightarrow> bytes \<Rightarrow> sender_sys \<Rightarrow> bool" where
  "sender_inv st0 c s \<longleftrightarrow>
     length (ts_buffer (ss_state s)) = MAX_BUFFER_SIZE
     \<and> same_job st0 (ss_state s) \<and> ts_file_size st0 = of_nat (length c)
     \<and> (ts_file (ss_state s) = None \<longrightarrow> \<not> ts_socket_open (ss_state s))
     \<and> (case ss_ops s of
          [] \<Rightarrow> finished st0 c (ss_log s)
        | [op] \<Rightarrow> completions (ss_log s) = [] \<and> at_op st0 c (ss_state s) (ss_log s) op
        | _ \<Rightarrow> False)"

section \<open>Preservation\<close>

lemma log_append [simp]:
  "wire (xs @ ys) = wire xs @ wire ys" "progress (xs @ ys) = progress xs @ progress ys"
  "completions (xs @ ys) = completions xs @ completions ys"
  by (simp_all add: wire_def progress_def completions_def)

lemma log_Nil [simp]: "wire [] = []" "progress [] = []" "completions [] = []"
  by (simp_all add: wire_def progress_def completions_def)

lemma log_Cons [simp]:
  "wire (x # ys) = wire_of x @ wire ys" "progress (x # ys) = progress_of x @ progress ys"
  "completions (x # ys) = completion_of x @ completions ys"
  by (simp_all add: wire_def progress_def completions_def)

lemma same_job_refl [simp]: "same_job st st"
  by (simp add: same_job_def)

lemma same_job_trans: "same_job a b \<Longrightarrow> same_job b c \<Longrightarrow> same_job a c"
  by (simp add: same_job_def)

lemma same_job_messages:
  "same_job st0 st \<Longrightarrow> offer_message st = offer_message st0"
  "same_job st0 st \<Longrightarrow> chunk_messages st c = chunk_messages st0 c"
  "same_job st0 st \<Longrightarrow> done_message st = done_message st0"
  by (simp_all add: same_job_def offer_message_def offer_of_def chunk_messages_def done_message_def)

text \<open>What a handler may change besides the position in the file.\<close>

definition keeps :: "TransferSender \<Rightarrow> TransferSender \<Rightarrow> bool" where
  "keeps st st' \<longleftrightarrow> same_job st st' \<and> length (ts_buffer st') = length (ts_buffer st)
     \<and> ts_socket_open st' = ts_socket_open st \<and> ts_bytes_sent st' = ts_bytes_sent st
     \<and> (ts_file st' = None \<longleftrightarrow> ts_file st = None)"

lemma keeps_store_read:
  "length data \<le> length (ts_buffer st) \<Longrightarrow> keeps st (store_read data st)"
  by (simp add: keeps_def store_read_def same_job_def)

lemma read_up_to_store [simp]: "read_up_to c k (store_read data st) \<longleftrightarrow> read_up_to c k st"
  by (simp add: read_up_to_def store_read_def)

lemma sendNextChunk_closed:
  "\<not> ts_socket_open st \<Longrightarrow> ts_file st = None \<Longrightarrow> sendNextChunk env st = Inl Uncaught"
  by (simp add: sendNextChunk_def next_block_def sync_write_def)

lemma next_block_at:
  assumes "read_up_to c k st" and "ts_file st \<noteq> None" and "k \<le> length (blocks CHUNK c)"
    and "length (ts_buffer st) = MAX_BUFFER_SIZE" and "next_block st = (bs, st')"
  shows "bs = (if k < length (blocks CHUNK c) then blocks CHUNK c ! k else [])"
    and "bs \<noteq> [] \<longleftrightarrow> k < length (blocks CHUNK c)"
    and "k < length (blocks CHUNK c) \<Longrightarrow> read_up_to c (Suc k) st'"
    and "keeps st st'" and "take (length bs) (ts_buffer st') = bs"
proof -
  let ?f = "\<lparr>in_data = c, in_pos = min (k * CHUNK) (length c), in_good = (k * CHUNK \<le> length c)\<rparr>"
  have f: "ts_file st = Some ?f" using assms(1,2) by (auto simp: read_up_to_def)
  have klt: "k < length (blocks CHUNK c) \<longleftrightarrow> k * CHUNK < length c" by (rule less_length_blocks) simp
  have bs: "bs = take CHUNK (drop (k * CHUNK) c)"
    using assms(5) f by (auto simp: next_block_def read_in_def split: if_splits)
  show b: "bs = (if k < length (blocks CHUNK c) then blocks CHUNK c ! k else [])"
    using klt by (auto simp: bs nth_blocks)
  show "bs \<noteq> [] \<longleftrightarrow> k < length (blocks CHUNK c)" using klt by (simp add: bs not_le)
  have st': "ts_buffer st' = overwrite 0 bs (ts_buffer st)"
    and rest: "same_job st st'" "ts_socket_open st' = ts_socket_open st"
      "ts_bytes_sent st' = ts_bytes_sent st" "ts_file st' \<noteq> None"
    using assms(5) f by (auto simp: next_block_def read_in_def same_job_def split: if_splits)
  have "length bs \<le> length (ts_buffer st)" using assms(4) by (simp add: bs)
  then show "keeps st st'" "take (length bs) (ts_buffer st') = bs"
    using rest assms(2) by (auto simp: keeps_def st')
  show "read_up_to c (Suc k) st'" if "k < length (blocks CHUNK c)"
    using assms(5) f that klt
    by (auto simp: next_block_def read_in_def read_up_to_def min_def split: if_splits)
qed

lemma sendNextChunk_cases:
  assumes "read_up_to c k st" and "ts_file st = None \<longrightarrow> \<not> ts_socket_open st"
    and "k \<le> length (blocks CHUNK c)" and "length (ts_buffer st) = MAX_BUFFER_SIZE"
    and "sendNextChunk env st = Inr (st', fx)"
  shows "keeps st st'"
    and "k < length (blocks CHUNK c) \<and> read_up_to c (Suc k) st'
           \<and> fx = [SStart (WriteChunk (chunk_messages st c ! k))]
         \<or> k = length (blocks CHUNK c) \<and> fx = [SWrite (done_message st), SStart ReadAck]"
proof -
  obtain bs st1 where nb: "next_block st = (bs, st1)" by fastforce
  have "ts_file st \<noteq> None"
    using assms(2,5) sendNextChunk_closed by fastforce
  note b = next_block_at [OF assms(1) this assms(3,4) nb]
  have j: "ts_session_id st1 = ts_session_id st" "ts_sha256 st1 = ts_sha256 st"
    using b(4) by (simp_all add: keeps_def same_job_def)
  have "st' = st1" using assms(5) nb by (auto simp: sendNextChunk_def sync_write_def split: if_splits)
  then show "keeps st st'" using b(4) by simp
  show "k < length (blocks CHUNK c) \<and> read_up_to c (Suc k) st'
           \<and> fx = [SStart (WriteChunk (chunk_messages st c ! k))]
         \<or> k = length (blocks CHUNK c) \<and> fx = [SWrite (done_message st), SStart ReadAck]"
  proof (cases "k < length (blocks CHUNK c)")
    case True
    then have "bs \<noteq> []" and "bs = blocks CHUNK c ! k" using b(1,2) by simp_all
    then have "fx = [SStart (WriteChunk (frame DATA_CHUNK (ts_session_id st) (blocks CHUNK c ! k)))]"
      using assms(5) b(5) by (auto simp: sendNextChunk_def nb j)
    with True b(3) \<open>st' = st1\<close> show ?thesis by (simp add: chunk_messages_def)
  next
    case False
    with b(2) assms(5) have "fx = [SWrite (done_message st), SStart ReadAck]"
      by (auto simp: sendNextChunk_def nb sync_write_def done_message_def j split: if_splits)
    with False assms(3) show ?thesis by simp
  qed
qed

lemma sent_chunks_all: "sent_chunks st c (length (blocks CHUNK c)) @ done_message st = honest_stream st c"
  by (simp add: sent_chunks_def honest_stream_def chunk_messages_def)

lemma sent_chunks_Suc:
  "k < length (blocks CHUNK c) \<Longrightarrow> sent_chunks st c k @ chunk_messages st c ! k = sent_chunks st c (Suc k)"
  by (simp add: sent_chunks_def chunk_messages_def take_Suc_conv_app_nth)

lemma prefix_sent_chunks: "prefix (sent_chunks st c k) (honest_stream st c)"
proof -
  have "concat (chunk_messages st c)
      = concat (take k (chunk_messages st c)) @ concat (drop k (chunk_messages st c))"
    by (simp flip: concat_append)
  then show ?thesis by (simp add: sent_chunks_def honest_stream_def)
qed

lemma reported_keeps: "keeps st st' \<Longrightarrow> reported c k st' log \<longleftrightarrow> reported c k st log"
  by (simp add: keeps_def reported_def)

text \<open>The operation that follows a call of \<open>sendNextChunk\<close>.\<close>

lemma after_sendNextChunk:
  assumes "read_up_to c k st" and "ts_file st = None \<longrightarrow> \<not> ts_socket_open st"
    and "k \<le> length (blocks CHUNK c)" and "length (ts_buffer st) = MAX_BUFFER_SIZE"
    and "sendNextChunk env st = Inr (st', fx)"
    and "same_job st0 st" and "wire log = sent_chunks st0 c k" and "reported c k st log"
  shows "keeps st st' \<and> completions fx = []
    \<and> (\<exists>op. concat (map started_by fx) = [op] \<and> at_op st0 c st' (log @ fx) op)"
proof -
  note r = sendNextChunk_cases [OF assms(1-5)] and m = same_job_messages [OF assms(6)]
  have rep: "reported c k st' log" using assms(8) reported_keeps [OF r(1)] by simp
  from r(2) show ?thesis
  proof
    assume a: "k < length (blocks CHUNK c) \<and> read_up_to c (Suc k) st'
      \<and> fx = [SStart (WriteChunk (chunk_messages st c ! k))]"
    then have "at_op st0 c st' (log @ fx) (WriteChunk (chunk_messages st0 c ! k))"
      using rep assms(7) m by (auto simp: sent_chunks_Suc reported_def)
    with a r(1) m show ?thesis by simp
  next
    assume a: "k = length (blocks CHUNK c) \<and> fx = [SWrite (done_message st), SStart ReadAck]"
    then have "at_op st0 c st' (log @ fx) ReadAck"
      using rep assms(7) m sent_chunks_all [of st0 c] by (auto simp: reported_def)
    with a r(1) show ?thesis by simp
  qed
qed

lemma at_op_prefix:
  assumes "at_op st0 c st log op"
  shows "prefix (wire log) (honest_stream st0 c)
    \<and> (\<exists>k \<le> length (blocks CHUNK c). progress log = map (progress_after c) [1..<Suc k])"
proof -
  have o: "prefix (offer_message st0) (honest_stream st0 c)" by (simp add: honest_stream_def)
  consider "wire log = [] \<or> wire log = offer_message st0" "reported c 0 st log"
    | k where "k < length (blocks CHUNK c)" "wire log = sent_chunks st0 c (Suc k)" "reported c k st log"
    | "wire log = honest_stream st0 c" "reported c (length (blocks CHUNK c)) st log"
    using assms by (cases op) auto
  then show ?thesis
  proof cases
    case 1
    with o show ?thesis by (auto simp: reported_def)
  next
    case (2 k)
    with prefix_sent_chunks [of st0 c "Suc k"] show ?thesis
      unfolding reported_def by (metis less_imp_le)
  next
    case 3
    then show ?thesis unfolding reported_def by (metis order_refl prefix_order.order_refl)
  qed
qed

definition outcome ::
  "TransferSender \<Rightarrow> bytes \<Rightarrow> TransferSender \<Rightarrow> sender_effect list \<Rightarrow> sender_effect list \<Rightarrow> bool" where
  "outcome st0 c st' log fx \<longleftrightarrow>
     (\<exists>op. concat (map started_by fx) = [op] \<and> completions fx = [] \<and> at_op st0 c st' (log @ fx) op)
     \<or> concat (map started_by fx) = [] \<and> finished st0 c (log @ fx)"

lemma outcome_end:
  assumes "at_op st0 c st log op" and "completions log = []"
    and "fx = [] \<or> (\<exists>path. fx = [SComplete False path])"
  shows "outcome st0 c st' log fx"
  using assms at_op_prefix [OF assms(1)] by (auto simp: outcome_def finished_def)

lemma outcome_next:
  assumes "at_op st0 c st' (log @ [SStart op]) op"
  shows "outcome st0 c st' log [SStart op]"
  using assms by (auto simp: outcome_def)

lemma outcome_sendNextChunk:
  assumes "sendNextChunk env st = Inr (st', fx)" and "same_job st0 st"
    and "wire log = sent_chunks st0 c k" and "reported c k st log"
    and "read_up_to c k st" and "ts_file st = None \<longrightarrow> \<not> ts_socket_open st"
    and "k \<le> length (blocks CHUNK c)" and "length (ts_buffer st) = MAX_BUFFER_SIZE"
  shows "keeps st st' \<and> outcome st0 c st' log fx"
  using after_sendNextChunk [OF assms(5-8,1-4)] by (auto simp: outcome_def)

text \<open>Every handler, at the operation that calls it.\<close>

definition sound_state :: "TransferSender \<Rightarrow> TransferSender \<Rightarrow> bool" where
  "sound_state st0 st \<longleftrightarrow> same_job st0 st \<and> length (ts_buffer st) = MAX_BUFFER_SIZE
     \<and> (ts_file st = None \<longrightarrow> \<not> ts_socket_open st)"

lemma sound_keeps: "sound_state st0 st \<Longrightarrow> keeps st st' \<Longrightarrow> sound_state st0 st'"
  by (auto simp: sound_state_def keeps_def intro: same_job_trans)

lemma keeps_refl [simp]: "keeps st st"
  by (simp add: keeps_def)

lemma on_handshake_outcome:
  assumes "on_handshake env st ec = Inr (st', fx)" and "sound_state st0 st"
    and "at_op st0 c st log ClientHandshake" and "completions log = []"
  shows "keeps st st' \<and> outcome st0 c st' log fx"
proof (cases ec)
  case None
  with assms(1,2) have "st' = st" "fx = [SWrite (offer_message st0), SStart ReadReply]"
    using same_job_messages(1) [of st0 st]
    by (auto simp: on_handshake_def sendOffer_def sync_write_def offer_message_def offer_of_def
        sound_state_def same_job_def split: if_splits)
  with assms(3) show ?thesis by (auto simp: outcome_def reported_def)
next
  case Some
  with assms outcome_end [OF assms(3,4), of fx st'] show ?thesis by (auto simp: on_handshake_def)
qed

lemma on_reply_outcome:
  assumes "on_reply env st ec = Inr (st', fx)" and "sound_state st0 st"
    and "at_op st0 c st log ReadReply" and "completions log = []"
  shows "keeps st st' \<and> outcome st0 c st' log fx"
proof -
  have chunk: "keeps st st' \<and> outcome st0 c st' log fx" if "sendNextChunk env st = Inr (st', fx)"
    using outcome_sendNextChunk [OF that, of st0 log c 0] assms(2,3)
    by (simp add: sound_state_def sent_chunks_def)
  have next_op: "outcome st0 c st log [SStart op]" if "op = DrainAccept n \<or> op = ReadReject h" for op n h
    using that assms(3) by (auto intro!: outcome_next simp: reported_def)
  show ?thesis
    using assms(1) chunk next_op outcome_end [OF assms(3,4), of fx st]
    by (auto simp: on_reply_def andThen_eq_Inr split: if_splits)
qed

lemma on_chunk_written_outcome:
  assumes "on_chunk_written env st ec (length m) = Inr (st', fx)" and "sound_state st0 st"
    and "at_op st0 c st log (WriteChunk m)" and "completions log = []"
    and "ts_file_size st0 = of_nat (length c)"
  shows "sound_state st0 st' \<and> outcome st0 c st' log fx"
proof (cases ec)
  case None
  from assms(3) obtain k where k: "k < length (blocks CHUNK c)" "m = chunk_messages st0 c ! k"
    "wire log = sent_chunks st0 c (Suc k)" "read_up_to c (Suc k) st" "reported c k st log" by auto
  let ?st = "st\<lparr>ts_bytes_sent := ts_bytes_sent st + (of_nat (length m) - of_nat HEADER_SIZE)\<rparr>"
  let ?p = "SProgress (ts_bytes_sent ?st) (ts_file_size ?st)"
  obtain fx' where fx': "sendNextChunk env ?st = Inr (st', fx')" "fx = ?p # fx'"
    using assms(1) None by (auto simp: on_chunk_written_def andThen_eq_Inr Let_def)
  obtain d where d: "min (Suc k * CHUNK) (length c) = k * CHUNK + d" "length m = HEADER_SIZE + d"
    and kc: "min (k * CHUNK) (length c) = k * CHUNK"
  proof
    have "k * CHUNK < length c" using k(1) less_length_blocks [of CHUNK k c] by simp
    then show "min (Suc k * CHUNK) (length c) = k * CHUNK + min CHUNK (length c - k * CHUNK)"
      and "length m = HEADER_SIZE + min CHUNK (length c - k * CHUNK)"
      and "min (k * CHUNK) (length c) = k * CHUNK"
      using k(1,2) by (auto simp: chunk_messages_def nth_blocks)
  qed
  have b: "ts_bytes_sent ?st = of_nat (min (Suc k * CHUNK) (length c))"
    using k(5) unfolding reported_def progress_after_def fst_conv d kc of_nat_add by simp
  have sz: "ts_file_size ?st = ts_file_size st0" using assms(2) by (simp add: sound_state_def same_job_def)
  have size: "ts_file_size ?st = of_nat (length c)" using sz assms(5) by simp
  have r: "reported c (Suc k) ?st (log @ [?p])"
    using k(5) b size by (simp add: reported_def progress_after_def del: mult_Suc)
  have "keeps ?st st' \<and> outcome st0 c st' (log @ [?p]) fx'"
    by (rule outcome_sendNextChunk [OF fx'(1) _ _ r])
      (use k assms(2) in \<open>simp_all add: sound_state_def same_job_def read_up_to_def\<close>)
  moreover have "sound_state st0 ?st" using assms(2) by (simp add: sound_state_def same_job_def)
  ultimately show ?thesis
    using assms(4) fx'(2) sound_keeps by (auto simp: outcome_def)
next
  case Some
  with assms outcome_end [OF assms(3,4), of fx st'] show ?thesis by (auto simp: on_chunk_written_def)
qed

lemma on_ack_outcome:
  assumes "on_ack st ec = Inr (st', fx)" and "at_op st0 c st log ReadAck" and "completions log = []"
  shows "keeps st st' \<and> outcome st0 c st' log fx"
proof -
  have "outcome st0 c st log [SStart (ReadAckBody h)]" for h
    using assms(2) by (auto intro!: outcome_next simp: reported_def)
  with assms(1) outcome_end [OF assms(2,3), of fx st] show ?thesis
    by (auto simp: on_ack_def andThen_eq_Inr split: if_splits)
qed

lemma on_ack_body_outcome:
  assumes "on_ack_body st h ec = Inr (st', fx)" and "at_op st0 c st log (ReadAckBody h)"
    and "completions log = []" and "same_job st0 st"
  shows "keeps st st' \<and> outcome st0 c st' log fx"
proof -
  have "outcome st0 c st log [SComplete True (ts_file_path st)]"
    using assms(2-4) by (auto simp: outcome_def finished_def reported_def same_job_def)
  with assms(1) outcome_end [OF assms(2,3), of fx st] show ?thesis
    by (auto simp: on_ack_body_def andThen_eq_Inr split: if_splits)
qed

lemma sender_reads_bound: "sender_reads op \<le> MAX_BUFFER_SIZE"
  by (cases op) auto

lemma sender_handler_outcome:
  assumes "sender_handler env st op ec data = Inr (st', fx)" and "sound_state st0 st"
    and "at_op st0 c st log op" and "completions log = []"
    and "ts_file_size st0 = of_nat (length c)" and "length data \<le> sender_reads op"
  shows "sound_state st0 st' \<and> outcome st0 c st' log fx"
proof -
  let ?st = "store_read data st"
  have k: "keeps st ?st"
    by (rule keeps_store_read) (use assms(2,6) sender_reads_bound [of op] in \<open>simp add: sound_state_def\<close>)
  note s = sound_keeps [OF assms(2) k]
  have a: "at_op st0 c ?st log op"
    using assms(3) reported_keeps [OF k] by (cases op) simp_all
  have h: "sound_state st0 st' \<and> outcome st0 c st' log fx" if "keeps ?st st' \<and> outcome st0 c st' log fx"
    using that sound_keeps [OF s] by blast
  show ?thesis
  proof (cases op)
    case ConnectTo
    with assms(1) have "on_connect ?st ec = Inr (st', fx)" by (simp add: sender_handler_def)
    with a ConnectTo outcome_end [OF a assms(4), of fx st'] show ?thesis
      by (intro h) (auto simp: on_connect_def reported_def split: if_splits intro!: outcome_next)
  next
    case ClientHandshake
    with assms(1) on_handshake_outcome [of env ?st ec st' fx st0 c log] s a assms(4) show ?thesis
      by (intro h) (simp add: sender_handler_def)
  next
    case ReadReply
    with assms(1) on_reply_outcome [of env ?st ec st' fx st0 c log] s a assms(4) show ?thesis
      by (intro h) (simp add: sender_handler_def)
  next
    case DrainAccept
    with assms(1) outcome_sendNextChunk [of env ?st st' fx st0 log c 0] s a show ?thesis
      by (intro h) (simp add: sender_handler_def on_drained_def sound_state_def sent_chunks_def)
  next
    case (ReadReject hd)
    with assms(1) have "on_reject ?st hd ec = Inr (st', fx)" by (simp add: sender_handler_def)
    with outcome_end [OF a assms(4), of fx st'] show ?thesis
      by (intro h) (auto simp: on_reject_def andThen_eq_Inr split: if_splits)
  next
    case (WriteChunk m)
    with assms(1,5) on_chunk_written_outcome [of env ?st ec m st' fx st0 c log] s a assms(4) show ?thesis
      by (simp add: sender_handler_def)
  next
    case ReadAck
    with assms(1) on_ack_outcome [of ?st ec st' fx st0 c log] a assms(4) show ?thesis
      by (intro h) (simp add: sender_handler_def)
  next
    case (ReadAckBody hd)
    with assms(1) on_ack_body_outcome [of ?st hd ec st' fx st0 c log] s a assms(4) show ?thesis
      by (intro h) (simp add: sender_handler_def sound_state_def)
  qed
qed

lemma sender_inv_alt:
  "sender_inv st0 c s \<longleftrightarrow> sound_state st0 (ss_state s) \<and> ts_file_size st0 = of_nat (length c)
     \<and> (ss_ops s = [] \<and> finished st0 c (ss_log s)
        \<or> (\<exists>op. ss_ops s = [op] \<and> completions (ss_log s) = []
             \<and> at_op st0 c (ss_state s) (ss_log s) op))"
  by (auto simp: sender_inv_def sound_state_def split: list.splits)

lemma at_op_stopped:
  assumes "at_op st0 c st log op"
  shows "at_op st0 c (st\<lparr>ts_socket_open := False, ts_file := None\<rparr>) log op"
  using assms by (cases op) (auto simp: read_up_to_def reported_def)

lemma sender_step_inv:
  assumes "sender_inv st0 c s" and "sender_step s t"
  shows "sender_inv st0 c t"
  using assms(2)
proof cases
  case (complete op data ec env st fx)
  then obtain "ss_ops s = [op]" "completions (ss_log s) = []" "at_op st0 c (ss_state s) (ss_log s) op"
    using assms(1) by (auto simp: sender_inv_alt)
  with complete sender_handler_outcome [of env "ss_state s" op ec data st fx st0 c "ss_log s"] assms(1)
  show ?thesis by (auto simp: sender_inv_alt outcome_def perform_def)
next
  case (stop env)
  with assms(1) show ?thesis
    by (auto simp: sender_inv_alt stopSender_def sound_state_def same_job_def at_op_stopped)
qed

interpretation sender_machine: state_machine "sender_init st0 c" sender_step "sender_inv st0 c" for st0 c
proof
  fix s assume "sender_init st0 c s"
  then show "sender_inv st0 c s"
    by (auto simp: sender_init_def sender_inv_alt perform_def sound_state_def read_up_to_def
        reported_def progress_after_def open_in_def)
qed (rule sender_step_inv)

lemma sender_inv_success:
  assumes "sender_inv st0 c s" and "(True, p) \<in> set (completions (ss_log s))"
  shows "p = ts_file_path st0 \<and> wire (ss_log s) = honest_stream st0 c"
  using assms by (cases "completions (ss_log s)") (auto simp: sender_inv_alt finished_def simp del: upt_Suc)

lemma sender_inv_progress:
  assumes "sender_inv st0 c s"
  obtains k where "k \<le> length (blocks CHUNK c)" and "progress (ss_log s) = map (progress_after c) [1..<Suc k]"
    and "(True, p) \<in> set (completions (ss_log s)) \<Longrightarrow> k = length (blocks CHUNK c)"
proof -
  have "\<exists>k \<le> length (blocks CHUNK c). progress (ss_log s) = map (progress_after c) [1..<Suc k]
      \<and> ((True, p) \<in> set (completions (ss_log s)) \<longrightarrow> k = length (blocks CHUNK c))"
  proof (cases "(True, p) \<in> set (completions (ss_log s))")
    case True
    with assms show ?thesis
      by (cases "completions (ss_log s)") (auto simp: sender_inv_alt finished_def simp del: upt_Suc)
  next
    case False
    with assms at_op_prefix [of st0 c "ss_state s" "ss_log s"] show ?thesis
      by (auto simp: sender_inv_alt finished_def simp del: upt_Suc)
  qed
  with that show thesis by blast
qed

section \<open>Properties\<close>

lemma startSender_ok:
  assumes "evp_sha256 evp sha" and "se_file env (ts_file_path st) = Some c" and "ts_file st = None"
  shows "startSender evp env st =
    (if se_address_ok env
     then Inr (True, st\<lparr>ts_file_size := of_nat (length c), ts_sha256 := sha c,
                 ts_file := Some (open_in c), ts_socket_open := True\<rparr>,
               [SStart (ConnectTo (ts_target_ip st) (ts_target_port st))])
     else Inl Uncaught)"
proof -
  obtain d f where df: "file_digest evp (open_in c) = (d, f)" by fastforce
  have "d = sha c" and "rewind f = open_in c"
    using file_digest_sha [OF assms(1), of "open_in c"] file_digest_rewind [of evp c] by (simp_all add: df)
  then show ?thesis using assms(2,3) by (simp add: startSender_def open_file_def df)
qed

lemma sender_started:
  assumes "evp_sha256 evp sha" and "se_file env path = Some c" and "length garbage = MAX_BUFFER_SIZE"
    and "startSender evp env (newTransferSender ip port path name sid garbage gsha gsize)
      = Inr (True, st0, fx)"
    and "sender_step\<^sup>*\<^sup>* (perform fx \<lparr>ss_state = st0, ss_ops = [], ss_log = []\<rparr>) s"
  shows "st0 = (newTransferSender ip port path name sid garbage gsha gsize)
      \<lparr>ts_file_size := of_nat (length c), ts_sha256 := sha c, ts_file := Some (open_in c),
       ts_socket_open := True\<rparr>" and "sender_inv st0 c s"
proof -
  have st0: "st0 = (newTransferSender ip port path name sid garbage gsha gsize)
      \<lparr>ts_file_size := of_nat (length c), ts_sha256 := sha c, ts_file := Some (open_in c),
       ts_socket_open := True\<rparr>" and fx: "fx = [SStart (ConnectTo ip port)]"
    using assms(4) startSender_ok [OF assms(1), of env "newTransferSender ip port path name sid garbage gsha gsize"]
      assms(2) by (auto simp: newTransferSender_def split: if_splits)
  have "sender_init st0 c (perform fx \<lparr>ss_state = st0, ss_ops = [], ss_log = []\<rparr>)"
    using assms(3) by (simp add: sender_init_def st0 fx newTransferSender_def)
  then show "sender_inv st0 c s" using assms(5) by (rule sender_machine.reachable_inv)
  show "st0 = (newTransferSender ip port path name sid garbage gsha gsize)
      \<lparr>ts_file_size := of_nat (length c), ts_sha256 := sha c, ts_file := Some (open_in c),
       ts_socket_open := True\<rparr>" by (rule st0)
qed

text \<open>
  C3. A started sender, against any peer, any errors and any time of \<open>stop\<close>: what it has put on
  the wire is always a prefix of one stream, the offer that carries the size, digest, base name
  and device name, then the blocks of the file in order, each in its own chunk message, then the
  done message. At most one operation is outstanding, the completion callback is called at most
  once and never while an operation is outstanding, and success is reported only after the whole
  stream was written. The progress callbacks report the exact number of bytes after each block.
\<close>

theorem sender_execution:
  assumes "evp_sha256 evp sha" and "se_file env path = Some c" and "length garbage = MAX_BUFFER_SIZE"
    and "startSender evp env (newTransferSender ip port path name sid garbage gsha gsize)
      = Inr (True, st0, fx)"
    and "sender_step\<^sup>*\<^sup>* (perform fx \<lparr>ss_state = st0, ss_ops = [], ss_log = []\<rparr>) s"
  shows "prefix (wire (ss_log s)) (honest_stream st0 c)
    \<and> honest_stream st0 c =
        frame TRANSFER_OFFER sid (serializeOffer \<lparr>op_file_size = of_nat (length c),
          op_resume_offset = 0, op_sha256 = sha c, op_file_name = filename path, op_device_name = name\<rparr>)
        @ concat (map (frame DATA_CHUNK sid) (blocks CHUNK c))
        @ frame TRANSFER_DONE sid (serializeDone \<lparr>pd_sha256 = sha c\<rparr>)
    \<and> concat (blocks CHUNK c) = c
    \<and> length (ss_ops s) + length (completions (ss_log s)) \<le> 1
    \<and> (\<exists>k \<le> length (blocks CHUNK c). progress (ss_log s) = map (progress_after c) [1..<Suc k])
    \<and> (\<forall>p. (True, p) \<in> set (completions (ss_log s)) \<longrightarrow> p = path \<and> wire (ss_log s) = honest_stream st0 c)"
proof -
  have inv: "sender_inv st0 c s" and st0: "st0 = (newTransferSender ip port path name sid garbage gsha gsize)
      \<lparr>ts_file_size := of_nat (length c), ts_sha256 := sha c, ts_file := Some (open_in c),
       ts_socket_open := True\<rparr>"
    using sender_started [OF assms] by blast+
  have "path = ts_file_path st0" by (simp add: st0 newTransferSender_def)
  then have "prefix (wire (ss_log s)) (honest_stream st0 c)
    \<and> length (ss_ops s) + length (completions (ss_log s)) \<le> 1
    \<and> (\<exists>k \<le> length (blocks CHUNK c). progress (ss_log s) = map (progress_after c) [1..<Suc k])
    \<and> (\<forall>p. (True, p) \<in> set (completions (ss_log s)) \<longrightarrow> p = path \<and> wire (ss_log s) = honest_stream st0 c)"
    using inv at_op_prefix [of st0 c "ss_state s" "ss_log s"]
    by (cases "completions (ss_log s)") (auto simp: sender_inv_alt finished_def simp del: upt_Suc)
  then show ?thesis
    by (simp add: concat_blocks honest_stream_def offer_message_def offer_of_def chunk_messages_def
        done_message_def st0 newTransferSender_def)
qed

definition sample_env :: sender_env where
  "sample_env = \<lparr>se_file = (\<lambda>p. if p = [47, 97] then Some [1, 2, 3] else None), se_address_ok = True,
     se_write_ok = True, se_close_ok = True\<rparr>"

definition sample_sender :: TransferSender where
  "sample_sender = newTransferSender [49] 50001 [47, 97] [65] 7 (replicate MAX_BUFFER_SIZE 0) [] 0"

lemma sample_started:
  "startSender pad_evp sample_env sample_sender =
     Inr (True, sample_sender\<lparr>ts_file_size := 3, ts_sha256 := pad32 [1, 2, 3],
           ts_file := Some (open_in [1, 2, 3]), ts_socket_open := True\<rparr>,
          [SStart (ConnectTo [49] 50001)])"
  using startSender_ok [OF pad_evp_sha256, of sample_env sample_sender "[1, 2, 3]"]
  by (simp add: sample_env_def sample_sender_def newTransferSender_def)

theorem sender_execution_witness:
  "\<exists>st0 (s :: sender_sys). startSender pad_evp sample_env sample_sender = Inr (True, st0, [SStart (ConnectTo [49] 50001)])
     \<and> ss_ops s = [ClientHandshake] \<and> prefix (wire (ss_log s)) (honest_stream st0 [1, 2, 3])"
proof -
  let ?fx = "[SStart (ConnectTo [49] 50001)]"
  let ?job = "sample_sender\<lparr>ts_file_size := 3, ts_sha256 := pad32 [1, 2, 3],
    ts_file := Some (open_in [1, 2, 3]), ts_socket_open := True\<rparr>"
  let ?start = "perform ?fx \<lparr>ss_state = ?job, ss_ops = [], ss_log = []\<rparr>"
  let ?next = "perform [SStart ClientHandshake] (?start\<lparr>ss_state := store_read [] ?job, ss_ops := []\<rparr>)"
  have "sender_step ?start ?next"
    using sender_step.complete [of "ConnectTo [49] 50001" ?start "[]" None sample_env
        "store_read [] ?job" "[SStart ClientHandshake]"]
    by (simp add: perform_def sender_handler_def on_connect_def)
  then have steps: "sender_step\<^sup>*\<^sup>* ?start ?next" ..
  have "se_file sample_env [47, 97] = Some [1, 2, 3]" and "length (replicate MAX_BUFFER_SIZE 0) = MAX_BUFFER_SIZE"
    by (simp_all add: sample_env_def)
  from sender_execution [OF pad_evp_sha256 this sample_started [unfolded sample_sender_def]
      steps [unfolded sample_sender_def]]
  have "prefix (wire (ss_log ?next)) (honest_stream ?job [1, 2, 3])"
    unfolding sample_sender_def by (rule conjunct1)
  moreover have "ss_ops ?next = [ClientHandshake]" by (simp add: perform_def)
  ultimately show ?thesis
    using sample_started by blast
qed

text \<open>
  The sender does not look at the result of \<open>deserializeHeader\<close>: whenever the 22 bytes that
  answer its offer or its done message do not form a valid header, it goes on to read a struct
  that was never written.
\<close>

theorem sender_invalid_reply:
  assumes "length (ts_buffer st) = MAX_BUFFER_SIZE" and "length reply = HEADER_SIZE"
    and "deserializeHeader reply None = Inr (False, None)"
  shows "sender_handler env st ReadReply None reply = Inl Uninitialised
    \<and> sender_handler env st ReadAck None reply = Inl Uninitialised"
  using deserializeHeader_append [of reply _ None] assms
  by (simp add: sender_handler_def store_read_def on_reply_def on_ack_def overwrite_0)

theorem sender_invalid_reply_witness:
  "sender_handler sample_env sample_sender ReadReply None (replicate HEADER_SIZE 0) = Inl Uninitialised"
proof -
  have "deserializeHeader (replicate HEADER_SIZE 0) None = Inr (False, None)"
    by (rule deserializeHeader_bad_magic) simp_all
  then show ?thesis
    using sender_invalid_reply [of sample_sender "replicate HEADER_SIZE 0" sample_env]
    by (simp add: sample_sender_def newTransferSender_def)
qed

text \<open>
  The verdict of the receiver reaches the caller only when it is positive: an acknowledgement
  whose byte is not zero ends the transfer with one successful completion, and one whose byte is
  zero ends it with no callback and no further operation.
\<close>

theorem sender_ack_verdict:
  assumes "length (ts_buffer st) = MAX_BUFFER_SIZE" and "payload_len header = 1"
  shows "\<exists>st'. sender_handler env st (ReadAckBody header) None [b] =
      Inr (st', if b \<noteq> 0 then [SComplete True (ts_file_path st)] else [])"
proof -
  have "1 \<le> length (overwrite 0 [b] (ts_buffer st))" using assms(1) by (simp add: overwrite_0)
  then show ?thesis
    using assms by (simp add: sender_handler_def store_read_def on_ack_body_def deserializeAck_def
        overwrite_0)
qed

theorem sender_ack_verdict_witness:
  "\<exists>st'. sender_handler sample_env sample_sender (ReadAckBody (buildHeader TRANSFER_ACK 7 1)) None [0] = Inr (st', [])"
  using sender_ack_verdict [of sample_sender "buildHeader TRANSFER_ACK 7 1" sample_env 0]
  by (simp add: sample_sender_def newTransferSender_def)

text \<open>
  Stopping a transfer between the completion of a chunk and its handler ends the program: the
  closed file delivers nothing, so the handler takes the file for finished and writes the done
  message to the closed socket, and the exception of that write is not caught.
\<close>

theorem sender_stop_race:
  assumes "stopSender env st = (True, st')"
  shows "sender_handler env' st' (WriteChunk m) None [] = Inl Uncaught
    \<and> sender_handler env' st' (DrainAccept n) ec data = Inl Uncaught"
proof -
  have "ts_file st' = None" and "\<not> ts_socket_open st'"
    using assms by (auto simp: stopSender_def split: if_splits)
  then show ?thesis
    by (simp add: sender_handler_def on_chunk_written_def on_drained_def store_read_def sendNextChunk_closed)
qed

theorem sender_stop_race_witness:
  "sender_handler sample_env (snd (stopSender sample_env sample_sender)) (WriteChunk [1]) None [] = Inl Uncaught"
  using sender_stop_race [where env = sample_env and st = sample_sender and env' = sample_env and m = "[1]"]
  by (simp add: stopSender_def sample_env_def)

end
