(* ===== verification/Receiver.thy ===== *)
theory Receiver
  imports Payloads Paths Streams Machine
begin

text \<open>
  The receiving end of a transfer, \<open>TransferReceiver\<close> of \<open>src/include/transfer.h\<close> and
  \<open>src/src/core/transfer.cpp\<close>, in the style of the sender: one function per method and per
  lambda, the outstanding operations as the constructors of \<open>receiver_op\<close>, effects in order. The
  disk is explicit: a map from paths to contents that \<open>file.open\<close>, \<open>file.write\<close> and
  \<open>std::filesystem::remove\<close> change. What the system answers (whether a path can be examined,
  created or removed, how much of a write fits, which ports can be bound, the verdict of the
  certificate callback) is the record \<open>receiver_env\<close>. Closing a socket is taken not to fail; the
  callbacks are taken to be set, as \<open>NetTransfer::start\<close> sets them.

  \<^item> \<open>asio::buffer(buffer + HEADER_SIZE, n)\<close> is the overload for pointers: nothing limits \<open>n\<close> to
    the rest of the array.
  \<^item> A path names one file: two spellings of the same file are not identified.
\<close>

section \<open>State\<close>

record TransferReceiver =
  tr_socket :: "bool option"  \<comment> \<open>\<open>None\<close>: the pointer is null; otherwise whether the socket is open\<close>
  tr_acceptor_open :: bool
  tr_pending_offer :: "OfferPayload option"
  tr_pending_session_id :: u64
  tr_file :: "(bytes \<times> bool) option"  \<comment> \<open>path and goodness of the stream opened for writing\<close>
  tr_file_path :: bytes
  tr_file_size :: u64
  tr_bytes_sent :: u64
  tr_listen_port :: u16
  tr_buffer :: bytes

datatype receiver_op =
    AcceptConnection
  | ServerHandshake
  | ReadOfferHeader
  | ReadOfferBody BaseHeader
  | WriteAccept bytes
  | WriteReject bytes
  | ReadChunkHeader
  | ReadChunkBody u32

datatype receiver_effect =
    RStart receiver_op
  | RWrite bytes
  | ROffer OfferPayload
  | RProgress u64 u64
  | RComplete bool bytes

record receiver_env =
  re_folder :: folder_env
  re_stat_ok :: "bytes \<Rightarrow> bool"
  re_other :: "bytes \<Rightarrow> bool"  \<comment> \<open>the path exists without being a regular file\<close>
  re_create_ok :: "bytes \<Rightarrow> bool"
  re_remove_ok :: "bytes \<Rightarrow> bool"
  re_room :: nat
  re_write_ok :: bool
  re_valid :: "(bytes \<Rightarrow> bool) option"
  re_bind_ok :: "u16 \<Rightarrow> bool"
  re_close_ok :: bool

fun receiver_reads :: "receiver_op \<Rightarrow> nat" where
  "receiver_reads ReadOfferHeader = HEADER_SIZE"
| "receiver_reads ReadChunkHeader = HEADER_SIZE"
| "receiver_reads (ReadOfferBody header) = unat (payload_len header)"
| "receiver_reads (ReadChunkBody n) = unat n"
| "receiver_reads _ = 0"

type_synonym receiver_result = "(TransferReceiver \<times> disk \<times> receiver_effect list) run"

section \<open>Files\<close>

text \<open>\<open>std::filesystem::exists\<close> and \<open>remove\<close> throw when the system call fails.\<close>

definition path_exists :: "receiver_env \<Rightarrow> disk \<Rightarrow> bytes \<Rightarrow> bool run" where
  "path_exists env disk p =
     (if re_stat_ok env p then Inr (disk p \<noteq> None \<or> re_other env p) else Inl Uncaught)"

definition remove_path :: "receiver_env \<Rightarrow> disk \<Rightarrow> bytes \<Rightarrow> disk run" where
  "remove_path env disk p = (if re_remove_ok env p then Inr (disk(p := None)) else Inl Uncaught)"

text \<open>
  \<open>file.open(p, binary | out)\<close> creates or truncates the file; on a stream that is still open it
  fails and leaves the stream open.
\<close>

definition open_out :: "receiver_env \<Rightarrow> bytes \<Rightarrow> TransferReceiver \<Rightarrow> disk \<Rightarrow> TransferReceiver \<times> disk" where
  "open_out env p st disk =
     (case tr_file st of
        Some (q, _) \<Rightarrow> (st\<lparr>tr_file := Some (q, False)\<rparr>, disk)
      | None \<Rightarrow>
          if p \<noteq> [] \<and> re_create_ok env p then (st\<lparr>tr_file := Some (p, True)\<rparr>, disk(p \<mapsto> []))
          else (st, disk))"

text \<open>\<open>file.write\<close> stores what fits; a short write makes the stream bad and it stores no more.\<close>

definition write_out :: "receiver_env \<Rightarrow> bytes \<Rightarrow> TransferReceiver \<Rightarrow> disk \<Rightarrow> TransferReceiver \<times> disk" where
  "write_out env bs st disk =
     (case tr_file st of
        Some (p, True) \<Rightarrow>
          (st\<lparr>tr_file := Some (p, length bs \<le> re_room env)\<rparr>,
           case disk p of None \<Rightarrow> disk | Some old \<Rightarrow> disk(p \<mapsto> old @ take (re_room env) bs))
      | _ \<Rightarrow> (st, disk))"

text \<open>\<open>file.open(p, binary | in)\<close>, after the stream was closed.\<close>

definition open_for_digest :: "disk \<Rightarrow> bytes \<Rightarrow> instream" where
  "open_for_digest disk p =
     (case disk p of Some content \<Rightarrow> open_in content
      | None \<Rightarrow> \<lparr>in_data = [], in_pos = 0, in_good = False\<rparr>)"

section \<open>Operations\<close>

definition newTransferReceiver :: "u16 \<Rightarrow> u64 \<Rightarrow> u64 \<Rightarrow> bytes \<Rightarrow> TransferReceiver" where
  "newTransferReceiver port garbage_sid garbage_size garbage =
     \<lparr>tr_socket = None, tr_acceptor_open = False, tr_pending_offer = None,
      tr_pending_session_id = garbage_sid, tr_file = None, tr_file_path = [],
      tr_file_size = garbage_size, tr_bytes_sent = 0, tr_listen_port = port, tr_buffer = garbage\<rparr>"

definition getPort :: "TransferReceiver \<Rightarrow> u16" where
  "getPort st = tr_listen_port st"

text \<open>A new socket object replaces the old one, which its destructor closes.\<close>

definition listenForConnections :: "TransferReceiver \<Rightarrow> TransferReceiver \<times> receiver_effect list" where
  "listenForConnections st = (st\<lparr>tr_socket := Some False\<rparr>, [RStart AcceptConnection])"

text \<open>
  The loop over the ports; \<open>re_bind_ok\<close> says whether opening, binding and listening succeed.
\<close>

function bind_loop :: "(u16 \<Rightarrow> bool) \<Rightarrow> u16 \<Rightarrow> u16 option" where
  "bind_loop ok port =
     (if port \<le> TCP_PORT_MAX then if ok port then Some port else bind_loop ok (port + 1) else None)"
  by pat_completeness auto
termination
proof (relation "measure (\<lambda>(ok, port). 50101 - unat port)")
  fix ok and port :: u16
  assume "port \<le> TCP_PORT_MAX"
  then have p: "unat port \<le> 50100" by (simp add: TCP_PORT_MAX_def word_le_nat_alt)
  then have "unat (port + 1) = unat port + 1"
    by (subst unat_add_lem [THEN iffD1]) auto
  with p show "((ok, port + 1), (ok, port)) \<in> measure (\<lambda>(ok, port). 50101 - unat port)" by simp
qed simp

declare bind_loop.simps [simp del]

definition startReceiver ::
  "receiver_env \<Rightarrow> TransferReceiver \<Rightarrow> bool \<times> TransferReceiver \<times> receiver_effect list" where
  "startReceiver env st =
     (case bind_loop (re_bind_ok env) (tr_listen_port st) of
        None \<Rightarrow> (False, st\<lparr>tr_acceptor_open := False\<rparr>, [])
      | Some port \<Rightarrow>
          let (st, fx) = listenForConnections (st\<lparr>tr_listen_port := port, tr_acceptor_open := True\<rparr>)
          in (True, st, fx))"

definition stopReceiver :: "receiver_env \<Rightarrow> TransferReceiver \<Rightarrow> bool \<times> TransferReceiver" where
  "stopReceiver env st =
     (if \<not> re_close_ok env then (False, st)
      else (True, st\<lparr>tr_acceptor_open := False, tr_socket := map_option (\<lambda>_. False) (tr_socket st),
                     tr_file := None\<rparr>))"

definition receiveNextChunk :: "receiver_effect list" where
  "receiveNextChunk = [RStart ReadChunkHeader]"

definition cleanupFailedTransfer ::
  "receiver_env \<Rightarrow> TransferReceiver \<Rightarrow> disk \<Rightarrow> (TransferReceiver \<times> disk) run" where
  "cleanupFailedTransfer env st disk =
     (let st = st\<lparr>tr_file := None\<rparr> in
      andThen
        (if tr_file_path st = [] then Inr disk
         else andThen (path_exists env disk (tr_file_path st)) (\<lambda>present.
              if present then remove_path env disk (tr_file_path st) else Inr disk))
        (\<lambda>disk. Inr (st\<lparr>tr_file_path := []\<rparr>, disk)))"

text \<open>The error path shared by the handlers of a running transfer.\<close>

definition fail_transfer :: "receiver_env \<Rightarrow> TransferReceiver \<Rightarrow> disk \<Rightarrow> receiver_result" where
  "fail_transfer env st disk =
     andThen (cleanupFailedTransfer env st disk) (\<lambda>(st, disk).
     let (st, fx) = listenForConnections st
     in Inr (st, disk, RComplete False [] # fx))"

text \<open>The two answers to an offer; both use \<open>*socket\<close>.\<close>

definition accept :: "TransferReceiver \<Rightarrow> receiver_effect list run" where
  "accept st =
     (if tr_socket st = None then Inl OutOfBounds
      else Inr [RStart (WriteAccept (frame TRANSFER_ACCEPT (tr_pending_session_id st) []))])"

definition reject :: "TransferReceiver \<Rightarrow> RejectReason \<Rightarrow> receiver_effect list run" where
  "reject st reason =
     (if tr_socket st = None then Inl OutOfBounds
      else Inr [RStart (WriteReject (frame TRANSFER_REJECT (tr_pending_session_id st)
                 (serializeReject \<lparr>rp_reason = reason\<rparr>)))])"

section \<open>Completion handlers\<close>

definition on_accepted :: "TransferReceiver \<Rightarrow> disk \<Rightarrow> ec \<Rightarrow> receiver_result" where
  "on_accepted st disk ec =
     (if ec \<noteq> None then let (st, fx) = listenForConnections st in Inr (st, disk, fx)
      else Inr (st\<lparr>tr_socket := Some True\<rparr>, disk, [RStart ServerHandshake]))"

definition on_server_handshake :: "TransferReceiver \<Rightarrow> disk \<Rightarrow> ec \<Rightarrow> receiver_result" where
  "on_server_handshake st disk ec =
     (if ec \<noteq> None then Inr (st, disk, []) else Inr (st, disk, [RStart ReadOfferHeader]))"

definition on_offer_header :: "TransferReceiver \<Rightarrow> disk \<Rightarrow> ec \<Rightarrow> receiver_result" where
  "on_offer_header st disk ec =
     (if ec \<noteq> None then Inr (st, disk, [])
      else
        andThen (deserializeHeader (tr_buffer st) None) (\<lambda>(_, header).
        andThen (initialised header) (\<lambda>header.
        if msg_type header \<noteq> TRANSFER_OFFER then Inr (st, disk, [])
        else if unat (payload_len header) > MAX_BUFFER_SIZE - HEADER_SIZE then Inr (st, disk, [])
        else Inr (st\<lparr>tr_pending_session_id := session_id header\<rparr>, disk,
                  [RStart (ReadOfferBody header)]))))"

definition on_offer_body ::
  "receiver_env \<Rightarrow> TransferReceiver \<Rightarrow> disk \<Rightarrow> BaseHeader \<Rightarrow> ec \<Rightarrow> receiver_result" where
  "on_offer_body env st disk header ec =
     (if ec \<noteq> None then Inr (st, disk, [])
      else
        andThen (deserializeOffer (drop HEADER_SIZE (tr_buffer st)) (unat (payload_len header)) None)
          (\<lambda>(_, op).
        andThen (initialised op) (\<lambda>op.
        let st = st\<lparr>tr_pending_offer := Some op, tr_file_size := op_file_size op\<rparr> in
        if (case re_valid env of None \<Rightarrow> False | Some valid \<Rightarrow> \<not> valid (op_device_name op))
        then let (st, fx) = listenForConnections (st\<lparr>tr_socket := Some False\<rparr>) in Inr (st, disk, fx)
        else Inr (st, disk, [ROffer op]))))"

definition on_accept_sent ::
  "receiver_env \<Rightarrow> TransferReceiver \<Rightarrow> disk \<Rightarrow> ec \<Rightarrow> receiver_result" where
  "on_accept_sent env st disk ec =
     (if ec \<noteq> None then Inr (st, disk, [])
      else
        andThen (initialised (tr_pending_offer st)) (\<lambda>offer.
        andThen (resolveFilePath (path_exists env disk) (getDownloadsFolder (re_folder env)) (op_file_name offer))
          (\<lambda>filepath.
        let (st, disk) = open_out env filepath (st\<lparr>tr_file_path := filepath\<rparr>) disk in
        if tr_file st = None then Inr (st, disk, []) else Inr (st, disk, receiveNextChunk))))"

text \<open>Errors of the write, of the TLS shutdown and of closing the socket are all swallowed.\<close>

definition on_reject_sent :: "TransferReceiver \<Rightarrow> disk \<Rightarrow> ec \<Rightarrow> receiver_result" where
  "on_reject_sent st disk ec =
     (let (st, fx) = listenForConnections (st\<lparr>tr_socket := Some False\<rparr>) in Inr (st, disk, fx))"

text \<open>The \<open>TRANSFER_DONE\<close> branch: hash the stored file, send the verdict, tell the user.\<close>

definition finish_transfer ::
  "'ctx evp \<Rightarrow> receiver_env \<Rightarrow> TransferReceiver \<Rightarrow> disk \<Rightarrow> receiver_result" where
  "finish_transfer evp env st disk =
     (let (sha256, _) = file_digest evp (open_for_digest disk (tr_file_path st)) in
      andThen (initialised (tr_pending_offer st)) (\<lambda>offer.
      let ok = (take 32 sha256 = take 32 (op_sha256 offer));
          message = frame TRANSFER_ACK (tr_pending_session_id st) (serializeAck \<lparr>ap_checksum_ok = ok\<rparr>)
      in if \<not> (re_write_ok env \<and> tr_socket st = Some True) then Inl Uncaught
         else
           let st = st\<lparr>tr_file := None\<rparr> in
           andThen (if ok then Inr disk else remove_path env disk (tr_file_path st)) (\<lambda>disk.
           let (st', fx) = listenForConnections st
           in Inr (st', disk, [RWrite message, RComplete ok (tr_file_path st)] @ fx))))"

definition on_chunk_header ::
  "'ctx evp \<Rightarrow> receiver_env \<Rightarrow> TransferReceiver \<Rightarrow> disk \<Rightarrow> ec \<Rightarrow> receiver_result" where
  "on_chunk_header evp env st disk ec =
     (if ec \<noteq> None then fail_transfer env st disk
      else
        andThen (deserializeHeader (tr_buffer st) None) (\<lambda>(_, header).
        andThen (initialised header) (\<lambda>header.
        if msg_type header = DATA_CHUNK then Inr (st, disk, [RStart (ReadChunkBody (payload_len header))])
        else if msg_type header = TRANSFER_DONE then finish_transfer evp env st disk
        else fail_transfer env st disk)))"

definition on_chunk_body ::
  "receiver_env \<Rightarrow> TransferReceiver \<Rightarrow> disk \<Rightarrow> ec \<Rightarrow> nat \<Rightarrow> receiver_result" where
  "on_chunk_body env st disk ec n =
     (if ec \<noteq> None then fail_transfer env st disk
      else
        let (st, disk) = write_out env (take n (drop HEADER_SIZE (tr_buffer st))) st disk;
            st = st\<lparr>tr_bytes_sent := tr_bytes_sent st + of_nat n\<rparr>
        in Inr (st, disk, RProgress (tr_bytes_sent st) (tr_file_size st) # receiveNextChunk))"

text \<open>Where an operation stores what it reads.\<close>

definition receive_into :: "receiver_op \<Rightarrow> bytes \<Rightarrow> TransferReceiver \<Rightarrow> TransferReceiver run" where
  "receive_into op data st =
     andThen
       (poke (case op of ReadOfferBody _ \<Rightarrow> HEADER_SIZE | ReadChunkBody _ \<Rightarrow> HEADER_SIZE | _ \<Rightarrow> 0)
          data (tr_buffer st))
       (\<lambda>buffer. Inr (st\<lparr>tr_buffer := buffer\<rparr>))"

definition receiver_handler ::
  "'ctx evp \<Rightarrow> receiver_env \<Rightarrow> TransferReceiver \<Rightarrow> disk \<Rightarrow> receiver_op \<Rightarrow> ec \<Rightarrow> bytes \<Rightarrow> receiver_result" where
  "receiver_handler evp env st disk op ec data =
     andThen (receive_into op data st) (\<lambda>st.
     case op of
       AcceptConnection \<Rightarrow> on_accepted st disk ec
     | ServerHandshake \<Rightarrow> on_server_handshake st disk ec
     | ReadOfferHeader \<Rightarrow> on_offer_header st disk ec
     | ReadOfferBody header \<Rightarrow> on_offer_body env st disk header ec
     | WriteAccept _ \<Rightarrow> on_accept_sent env st disk ec
     | WriteReject _ \<Rightarrow> on_reject_sent st disk ec
     | ReadChunkHeader \<Rightarrow> on_chunk_header evp env st disk ec
     | ReadChunkBody _ \<Rightarrow> on_chunk_body env st disk ec (length data))"

end
