(* ===== verification/Receiver_System.thy ===== *)
theory Receiver_System
  imports Receiver
begin

text \<open>
  The receiver as it runs against an arbitrary peer: operations complete with any error code
  and any bytes, the user accepts or rejects every offer reported, \<open>stop\<close> may be called at any
  time. The invariant accounts for every file on the disk: those that were there before, those
  reported as received, and the one that is being received.
\<close>

section \<open>Executions\<close>

record receiver_sys =
  rs_state :: TransferReceiver
  rs_disk :: disk
  rs_ops :: "receiver_op list"
  rs_asked :: bool  \<comment> \<open>an offer was reported and not answered yet\<close>
  rs_log :: "receiver_effect list"

fun rstarted_by :: "receiver_effect \<Rightarrow> receiver_op list" where
  "rstarted_by (RStart op) = [op]"
| "rstarted_by _ = []"

fun is_offer :: "receiver_effect \<Rightarrow> bool" where
  "is_offer (ROffer _) \<longleftrightarrow> True"
| "is_offer _ \<longleftrightarrow> False"

definition rperform :: "receiver_effect list \<Rightarrow> receiver_sys \<Rightarrow> receiver_sys" where
  "rperform fx s =
     s\<lparr>rs_ops := rs_ops s @ concat (map rstarted_by fx),
       rs_asked := rs_asked s \<or> list_ex is_offer fx, rs_log := rs_log s @ fx\<rparr>"

definition receiver_init :: "disk \<Rightarrow> receiver_sys \<Rightarrow> bool" where
  "receiver_init disk0 s \<longleftrightarrow> (\<exists>env port sid size garbage st fx. length garbage = MAX_BUFFER_SIZE
     \<and> startReceiver env (newTransferReceiver port sid size garbage) = (True, st, fx)
     \<and> s = rperform fx \<lparr>rs_state = st, rs_disk = disk0, rs_ops = [], rs_asked = False, rs_log = []\<rparr>)"

inductive receiver_step :: "'ctx evp \<Rightarrow> receiver_sys \<Rightarrow> receiver_sys \<Rightarrow> bool" for evp where
  complete: "op \<in> set (rs_ops s) \<Longrightarrow> length data \<le> receiver_reads op \<Longrightarrow>
    ec = None \<longrightarrow> length data = receiver_reads op \<Longrightarrow>
    receiver_handler evp env (rs_state s) (rs_disk s) op ec data = Inr (st, disk, fx) \<Longrightarrow>
    receiver_step evp s
      (rperform fx (s\<lparr>rs_state := st, rs_disk := disk, rs_ops := remove1 op (rs_ops s)\<rparr>))"
| answer_yes: "rs_asked s \<Longrightarrow> accept (rs_state s) = Inr fx \<Longrightarrow>
    receiver_step evp s (rperform fx (s\<lparr>rs_asked := False\<rparr>))"
| answer_no: "rs_asked s \<Longrightarrow> reject (rs_state s) reason = Inr fx \<Longrightarrow>
    receiver_step evp s (rperform fx (s\<lparr>rs_asked := False\<rparr>))"
| stop: "receiver_step evp s (s\<lparr>rs_state := snd (stopReceiver env (rs_state s))\<rparr>)"

section \<open>The invariant\<close>

definition received :: "receiver_effect list \<Rightarrow> bytes set" where
  "received log = {p. RComplete True p \<in> set log}"

definition accounted :: "(bytes \<Rightarrow> bytes) \<Rightarrow> disk \<Rightarrow> disk \<Rightarrow> receiver_effect list \<Rightarrow> bool" where
  "accounted sha disk0 disk log \<longleftrightarrow>
     (\<forall>p \<in> dom disk0. disk p = disk0 p) \<and> received log \<inter> dom disk0 = {}
     \<and> (\<forall>p \<in> received log. \<exists>op c. ROffer op \<in> set log \<and> disk p = Some c \<and> sha c = op_sha256 op)"

definition settled :: "disk \<Rightarrow> TransferReceiver \<Rightarrow> disk \<Rightarrow> receiver_effect list \<Rightarrow> bool" where
  "settled disk0 st disk log \<longleftrightarrow> tr_file st = None \<and> dom disk = dom disk0 \<union> received log"

definition offered :: "TransferReceiver \<Rightarrow> receiver_effect list \<Rightarrow> bool" where
  "offered st log \<longleftrightarrow> (\<exists>op. tr_pending_offer st = Some op \<and> ROffer op \<in> set log \<and> wf_offer op)"

definition transferring :: "disk \<Rightarrow> TransferReceiver \<Rightarrow> disk \<Rightarrow> receiver_effect list \<Rightarrow> bool" where
  "transferring disk0 st disk log \<longleftrightarrow>
     tr_file_path st \<noteq> [] \<and> tr_file_path st \<notin> dom disk0 \<union> received log
     \<and> dom disk = dom disk0 \<union> received log \<union> {tr_file_path st}
     \<and> (\<forall>q good. tr_file st = Some (q, good) \<longrightarrow> q = tr_file_path st)"

fun phase ::
  "disk \<Rightarrow> TransferReceiver \<Rightarrow> disk \<Rightarrow> receiver_effect list \<Rightarrow> receiver_op list \<Rightarrow> bool \<Rightarrow> bool" where
  "phase disk0 st disk log [] asked \<longleftrightarrow> settled disk0 st disk log \<and> (asked \<longrightarrow> offered st log)"
| "phase disk0 st disk log [ReadChunkHeader] asked \<longleftrightarrow>
     transferring disk0 st disk log \<and> offered st log \<and> \<not> asked"
| "phase disk0 st disk log [ReadChunkBody _] asked \<longleftrightarrow>
     transferring disk0 st disk log \<and> offered st log \<and> \<not> asked"
| "phase disk0 st disk log [WriteAccept _] asked \<longleftrightarrow>
     settled disk0 st disk log \<and> offered st log \<and> \<not> asked"
| "phase disk0 st disk log [_] asked \<longleftrightarrow> settled disk0 st disk log \<and> \<not> asked"
| "phase disk0 st disk log _ asked \<longleftrightarrow> False"

definition receiver_inv :: "(bytes \<Rightarrow> bytes) \<Rightarrow> disk \<Rightarrow> receiver_sys \<Rightarrow> bool" where
  "receiver_inv sha disk0 s \<longleftrightarrow>
     length (tr_buffer (rs_state s)) = MAX_BUFFER_SIZE
     \<and> accounted sha disk0 (rs_disk s) (rs_log s)
     \<and> phase disk0 (rs_state s) (rs_disk s) (rs_log s) (rs_ops s) (rs_asked s)"

section \<open>Preservation\<close>

lemma received_append [simp]: "received (xs @ ys) = received xs \<union> received ys"
  by (auto simp: received_def)

lemma received_Nil [simp]: "received [] = {}"
  by (simp add: received_def)

lemma received_Cons [simp]:
  "received (x # xs) = (case x of RComplete ok p \<Rightarrow> if ok then {p} else {} | _ \<Rightarrow> {}) \<union> received xs"
  by (auto simp: received_def split: receiver_effect.splits)

text \<open>Effects that report no new file.\<close>

lemma accounted_append:
  "accounted sha disk0 disk log \<Longrightarrow> received fx = {} \<Longrightarrow> accounted sha disk0 disk (log @ fx)"
  unfolding accounted_def by (auto 0 4)

text \<open>Changing a file that was neither there before nor reported.\<close>

lemma accounted_update:
  assumes "accounted sha disk0 disk log" and "p \<notin> dom disk0" and "p \<notin> received log"
  shows "accounted sha disk0 (disk(p := x)) log"
proof -
  have "(disk(p := x)) q = disk q" if "q \<in> dom disk0 \<or> q \<in> received log" for q
    using that assms(2,3) by auto
  with assms(1) show ?thesis unfolding accounted_def by metis
qed

lemma offered_append: "offered st log \<Longrightarrow> offered st (log @ fx)"
  by (auto simp: offered_def)

text \<open>A handler's result as a new state of the system.\<close>

definition good_result ::
  "(bytes \<Rightarrow> bytes) \<Rightarrow> disk \<Rightarrow> receiver_effect list \<Rightarrow> TransferReceiver \<Rightarrow> disk \<Rightarrow> receiver_effect list \<Rightarrow> bool" where
  "good_result sha disk0 log st disk fx \<longleftrightarrow>
     accounted sha disk0 disk (log @ fx)
     \<and> phase disk0 st disk (log @ fx) (concat (map rstarted_by fx)) (list_ex is_offer fx)"

lemma good_settled:
  assumes "accounted sha disk0 disk log" and "settled disk0 st disk log"
    and "tr_file st' = None"
    and "fx = [] \<or> (\<exists>op. fx = [RStart op] \<and> (op = AcceptConnection \<or> op = ServerHandshake
      \<or> op = ReadOfferHeader \<or> (\<exists>h. op = ReadOfferBody h) \<or> (\<exists>m. op = WriteReject m)))"
  shows "good_result sha disk0 log st' disk fx"
  using assms accounted_append [OF assms(1), of fx] by (auto simp: good_result_def settled_def)

lemma cleanup_settles:
  assumes "cleanupFailedTransfer env st disk = Inr (st', disk')"
    and "transferring disk0 st disk log" and "accounted sha disk0 disk log"
  shows "settled disk0 st' disk' log" and "accounted sha disk0 disk' log"
    and "tr_buffer st' = tr_buffer st"
proof -
  let ?p = "tr_file_path st"
  have p: "?p \<noteq> []" "disk ?p \<noteq> None" "?p \<notin> dom disk0" "?p \<notin> received log"
    and d: "dom disk = dom disk0 \<union> received log \<union> {?p}"
    using assms(2) by (auto simp: transferring_def)
  have r: "disk' = disk(?p := None)" "st' = st\<lparr>tr_file := None, tr_file_path := []\<rparr>"
    using assms(1) p by (auto simp: cleanupFailedTransfer_def andThen_eq_Inr path_exists_def
        remove_path_def Let_def split: if_splits)
  show "tr_buffer st' = tr_buffer st" by (simp add: r)
  show "settled disk0 st' disk' log" using p d by (auto simp: settled_def r)
  show "accounted sha disk0 disk' log"
    unfolding r by (rule accounted_update [OF assms(3) p(3,4)])
qed

lemma fail_transfer_good:
  assumes "fail_transfer env st disk = Inr (st', disk', fx)"
    and "transferring disk0 st disk log" and "accounted sha disk0 disk log"
  shows "good_result sha disk0 log st' disk' fx \<and> tr_buffer st' = tr_buffer st"
proof -
  obtain st1 where c: "cleanupFailedTransfer env st disk = Inr (st1, disk')"
    "st' = st1\<lparr>tr_socket := Some False\<rparr>" "fx = [RComplete False [], RStart AcceptConnection]"
    using assms(1) by (auto simp: fail_transfer_def andThen_eq_Inr listenForConnections_def)
  note s = cleanup_settles [OF c(1) assms(2,3)]
  have "accounted sha disk0 disk' (log @ fx)" by (rule accounted_append [OF s(2)]) (simp add: c)
  with s c show ?thesis by (simp add: good_result_def settled_def)
qed

lemma accepted_offer_wf:
  assumes "deserializeOffer data len None = Inr (ok, Some op)"
  shows "wf_offer op"
  using assms offer_codec.ser_deser [of data len None op] offer_codec.deser_false [of data len None "Some op"]
  by (cases ok) auto

lemma on_offer_body_good:
  assumes "on_offer_body env st disk header ec = Inr (st', disk', fx)"
    and "settled disk0 st disk log" and "accounted sha disk0 disk log"
  shows "good_result sha disk0 log st' disk' fx \<and> tr_buffer st' = tr_buffer st"
proof (cases "ec = None \<and> list_ex is_offer fx")
  case True
  then obtain op ok where op: "deserializeOffer (drop HEADER_SIZE (tr_buffer st))
      (unat (payload_len header)) None = Inr (ok, Some op)" "fx = [ROffer op]" "disk' = disk"
    "st' = st\<lparr>tr_pending_offer := Some op, tr_file_size := op_file_size op\<rparr>"
    using assms(1) by (auto simp: on_offer_body_def andThen_eq_Inr listenForConnections_def Let_def
        split: if_splits option.splits)
  have "accounted sha disk0 disk (log @ fx)" by (rule accounted_append [OF assms(3)]) (simp add: op)
  then show ?thesis
    using accepted_offer_wf [OF op(1)] assms(2) op by (simp add: good_result_def settled_def offered_def)
next
  case False
  with assms(1,2) have "disk' = disk \<and> tr_file st' = None \<and> tr_buffer st' = tr_buffer st
      \<and> (fx = [] \<or> fx = [RStart AcceptConnection])"
    by (auto simp: on_offer_body_def andThen_eq_Inr listenForConnections_def Let_def settled_def
        split: if_splits option.splits)
  with good_settled [OF assms(3,2)] show ?thesis by blast
qed

lemma resolved_fresh:
  "resolveFilePath (path_exists env disk) dir fname = Inr p \<Longrightarrow> disk p = None"
  by (drule resolveFilePath_result(1)) (auto simp: path_exists_def split: if_splits)

lemma on_accept_sent_good:
  assumes "on_accept_sent env st disk ec = Inr (st', disk', fx)"
    and "settled disk0 st disk log" and "offered st log" and "accounted sha disk0 disk log"
  shows "good_result sha disk0 log st' disk' fx \<and> tr_buffer st' = tr_buffer st"
proof (cases "fx = []")
  case True
  with assms(1,2) have "disk' = disk \<and> tr_file st' = None \<and> tr_buffer st' = tr_buffer st"
    by (auto simp: on_accept_sent_def andThen_eq_Inr open_out_def receiveNextChunk_def settled_def
        split: if_splits option.splits)
  with True good_settled [OF assms(4,2)] show ?thesis by blast
next
  case False
  have nofile: "tr_file st = None" using assms(2) by (simp add: settled_def)
  from False assms(1) nofile obtain p dir fname where
    p: "resolveFilePath (path_exists env disk) dir fname = Inr p" "p \<noteq> []"
    "disk' = disk(p \<mapsto> [])" "st' = st\<lparr>tr_file_path := p, tr_file := Some (p, True)\<rparr>"
    "fx = [RStart ReadChunkHeader]"
    by (auto simp: on_accept_sent_def andThen_eq_Inr open_out_def receiveNextChunk_def Let_def
        split: if_splits option.splits)
  have fresh: "p \<notin> dom disk0 \<union> received log"
    using resolved_fresh [OF p(1)] assms(2) by (auto simp: settled_def)
  have "accounted sha disk0 disk' log"
    using accounted_update [OF assms(4), of p "Some []"] fresh by (simp add: p)
  then have "accounted sha disk0 disk' (log @ fx)" by (rule accounted_append) (simp add: p)
  moreover have "transferring disk0 st' disk' (log @ fx)"
    using p fresh assms(2) by (auto simp: transferring_def settled_def)
  moreover have "offered st' (log @ fx)" using assms(3) p by (auto simp: offered_def)
  ultimately show ?thesis using p by (simp add: good_result_def)
qed

lemma open_for_digest_sha:
  assumes "evp_sha256 evp sha" and "disk p = Some c"
  shows "fst (file_digest evp (open_for_digest disk p)) = sha c"
  using file_digest_sha [OF assms(1), of "open_in c"] assms(2) by (simp add: open_for_digest_def)

lemma finish_transfer_good:
  assumes "finish_transfer evp env st disk = Inr (st', disk', fx)" and "evp_sha256 evp sha"
    and "transferring disk0 st disk log" and "offered st log" and "accounted sha disk0 disk log"
  shows "good_result sha disk0 log st' disk' fx \<and> tr_buffer st' = tr_buffer st"
proof -
  let ?p = "tr_file_path st"
  have "?p \<in> dom disk" using assms(3) by (simp add: transferring_def)
  then obtain c where c: "disk ?p = Some c" by blast
  have p: "?p \<notin> dom disk0" "?p \<notin> received log"
    and d: "dom disk = dom disk0 \<union> received log \<union> {?p}" using assms(3) by (auto simp: transferring_def)
  obtain op where op: "tr_pending_offer st = Some op" "ROffer op \<in> set log" "length (op_sha256 op) = 32"
    using assms(4) by (auto simp: offered_def wf_offer_def)
  obtain s f where sf: "file_digest evp (open_for_digest disk ?p) = (s, f)" by fastforce
  with open_for_digest_sha [of evp sha disk ?p c] assms(2) c have s: "s = sha c" by simp
  have eq: "take 32 (sha c) = sha c" "take 32 (op_sha256 op) = op_sha256 op"
    using op(3) length_sha [OF assms(2), of c] by (simp_all only: take_all order_refl)
  from assms(1) have st': "st' = st\<lparr>tr_file := None, tr_socket := Some False\<rparr>"
    and r: "\<exists>m. fx = [RWrite m, RComplete (sha c = op_sha256 op) ?p, RStart AcceptConnection]"
      "disk' = (if sha c = op_sha256 op then disk else disk(?p := None))"
    by (auto simp: finish_transfer_def sf s op eq andThen_eq_Inr listenForConnections_def Let_def
        remove_path_def split: if_splits)
  from r(1) obtain m where fx: "fx = [RWrite m, RComplete (sha c = op_sha256 op) ?p, RStart AcceptConnection]" ..
  have "settled disk0 st' disk' (log @ fx)" using p d by (auto simp: settled_def st' r(2) fx)
  moreover have "accounted sha disk0 disk' (log @ fx)"
    using assms(5) p op(2) c unfolding accounted_def r(2) fx by (auto 0 4)
  ultimately show ?thesis by (simp add: good_result_def fx st')
qed

lemma on_chunk_header_good:
  assumes "on_chunk_header evp env st disk ec = Inr (st', disk', fx)" and "evp_sha256 evp sha"
    and "transferring disk0 st disk log" and "offered st log" and "accounted sha disk0 disk log"
  shows "good_result sha disk0 log st' disk' fx \<and> tr_buffer st' = tr_buffer st"
proof -
  have body: "good_result sha disk0 log st disk [RStart (ReadChunkBody n)]" for n
    using assms(3-5) accounted_append [OF assms(5), of "[RStart (ReadChunkBody n)]"]
    by (simp add: good_result_def transferring_def offered_def)
  show ?thesis
    using assms(1) body fail_transfer_good [OF _ assms(3,5)] finish_transfer_good [OF _ assms(2-5)]
    by (auto simp: on_chunk_header_def andThen_eq_Inr split: if_splits)
qed

lemma write_out_transferring:
  assumes "write_out env bs st disk = (st', disk')" and "transferring disk0 st disk log"
    and "accounted sha disk0 disk log"
  shows "transferring disk0 st' disk' log" and "accounted sha disk0 disk' log"
    and "tr_buffer st' = tr_buffer st" and "tr_pending_offer st' = tr_pending_offer st"
proof -
  let ?p = "tr_file_path st"
  have p: "?p \<notin> dom disk0" "?p \<notin> received log" "?p \<in> dom disk" using assms(2) by (auto simp: transferring_def)
  have f: "\<forall>q good. tr_file st = Some (q, good) \<longrightarrow> q = ?p"
    using assms(2) by (simp add: transferring_def)
  have st': "\<forall>q good. tr_file st' = Some (q, good) \<longrightarrow> q = ?p" "tr_file_path st' = ?p"
    and d': "disk' = disk \<or> (\<exists>c. disk' = disk(?p \<mapsto> c))"
    and k: "tr_buffer st' = tr_buffer st" "tr_pending_offer st' = tr_pending_offer st"
    using assms(1) f by (auto simp: write_out_def split: option.splits bool.splits)
  show "tr_buffer st' = tr_buffer st" "tr_pending_offer st' = tr_pending_offer st" by (fact k)+
  have "dom disk' = dom disk" using d' p(3) by (elim disjE exE) (simp_all add: insert_absorb)
  then show "transferring disk0 st' disk' log" using st' assms(2) by (simp add: transferring_def)
  show "accounted sha disk0 disk' log"
    using d' assms(3) accounted_update [OF assms(3) p(1,2)] by auto
qed

lemma on_chunk_body_good:
  assumes "on_chunk_body env st disk ec n = Inr (st', disk', fx)"
    and "transferring disk0 st disk log" and "offered st log" and "accounted sha disk0 disk log"
  shows "good_result sha disk0 log st' disk' fx \<and> tr_buffer st' = tr_buffer st"
proof (cases ec)
  case None
  obtain st1 d1 where w: "write_out env (take n (drop HEADER_SIZE (tr_buffer st))) st disk = (st1, d1)"
    by fastforce
  note o = write_out_transferring [OF w assms(2,4)]
  have r: "disk' = d1" "st' = st1\<lparr>tr_bytes_sent := tr_bytes_sent st1 + of_nat n\<rparr>"
    "\<exists>x y. fx = [RProgress x y, RStart ReadChunkHeader]"
    using assms(1) None by (auto simp: on_chunk_body_def w receiveNextChunk_def)
  then obtain x y where fx: "fx = [RProgress x y, RStart ReadChunkHeader]" by blast
  have "accounted sha disk0 disk' (log @ fx)" unfolding r by (rule accounted_append [OF o(2)]) (simp add: fx)
  with o r assms(3) show ?thesis by (simp add: good_result_def transferring_def offered_def fx)
next
  case Some
  with assms(1) fail_transfer_good [OF _ assms(2,4)] show ?thesis by (simp add: on_chunk_body_def)
qed

lemma receive_into_buffer:
  assumes "receive_into op data st = Inr st'" and "length (tr_buffer st) = MAX_BUFFER_SIZE"
  shows "\<exists>b. st' = st\<lparr>tr_buffer := b\<rparr> \<and> length b = MAX_BUFFER_SIZE"
  using assms by (auto simp: receive_into_def andThen_eq_Inr poke_eq_Inr)

lemma phase_buffer: "phase disk0 (st\<lparr>tr_buffer := b\<rparr>) disk log ops asked = phase disk0 st disk log ops asked"
  by (cases "(disk0, st, disk, log, ops, asked)" rule: phase.cases)
    (simp_all add: settled_def offered_def transferring_def)

lemma receiver_handler_good:
  assumes "receiver_handler evp env st disk op ec data = Inr (st', disk', fx)" and "evp_sha256 evp sha"
    and "phase disk0 st disk log [op] False" and "accounted sha disk0 disk log"
    and "length (tr_buffer st) = MAX_BUFFER_SIZE"
  shows "good_result sha disk0 log st' disk' fx \<and> length (tr_buffer st') = MAX_BUFFER_SIZE"
proof -
  obtain st1 where i: "receive_into op data st = Inr st1"
    using assms(1) by (auto simp: receiver_handler_def andThen_eq_Inr)
  obtain b where b: "st1 = st\<lparr>tr_buffer := b\<rparr>" "length b = MAX_BUFFER_SIZE"
    using receive_into_buffer [OF i assms(5)] by blast
  have l: "length (tr_buffer st1) = MAX_BUFFER_SIZE" by (simp add: b)
  have ph: "phase disk0 st1 disk log [op] False" using assms(3) by (simp add: b phase_buffer)
  have ready: "good_result sha disk0 log st' disk' fx \<and> length (tr_buffer st') = MAX_BUFFER_SIZE"
    if "good_result sha disk0 log st' disk' fx \<and> tr_buffer st' = tr_buffer st1"
    using that l by simp
  have plain: ?thesis
    if "settled disk0 st1 disk log" "disk' = disk" "tr_file st' = tr_file st1" "tr_buffer st' = tr_buffer st1"
      "fx = [] \<or> (\<exists>op. fx = [RStart op] \<and> (op = AcceptConnection \<or> op = ServerHandshake
        \<or> op = ReadOfferHeader \<or> (\<exists>h. op = ReadOfferBody h) \<or> (\<exists>m. op = WriteReject m)))"
    using good_settled [OF assms(4) that(1), of st' fx] that l by (simp add: settled_def)
  note h = assms(1) [unfolded receiver_handler_def i andThen_simps]
  show ?thesis
  proof (cases op)
    case AcceptConnection
    with h ph show ?thesis
      by (intro plain) (auto simp: on_accepted_def listenForConnections_def split: if_splits)
  next
    case ServerHandshake
    with h ph show ?thesis by (intro plain) (auto simp: on_server_handshake_def split: if_splits)
  next
    case ReadOfferHeader
    with h ph show ?thesis
      by (intro plain) (auto simp: on_offer_header_def andThen_eq_Inr split: if_splits)
  next
    case (ReadOfferBody header)
    with h ph on_offer_body_good [of env st1 disk header ec st' disk' fx disk0 log sha] assms(4) show ?thesis
      by (intro ready) simp
  next
    case WriteAccept
    with h ph on_accept_sent_good [of env st1 disk ec st' disk' fx disk0 log sha] assms(4) show ?thesis
      by (intro ready) simp
  next
    case WriteReject
    with h ph show ?thesis
      by (intro plain) (auto simp: on_reject_sent_def listenForConnections_def)
  next
    case ReadChunkHeader
    with h ph on_chunk_header_good [of evp env st1 disk ec st' disk' fx sha disk0 log] assms(2,4) show ?thesis
      by (intro ready) simp
  next
    case ReadChunkBody
    with h ph on_chunk_body_good [of env st1 disk ec "length data" st' disk' fx disk0 log sha] assms(4) show ?thesis
      by (intro ready) simp
  qed
qed

lemma phase_cases:
  assumes "phase disk0 st disk log ops asked"
  shows "ops = [] \<or> \<not> asked \<and> (\<exists>op. ops = [op])"
  using assms by (cases "(disk0, st, disk, log, ops, asked)" rule: phase.cases) auto

lemma phase_stopped:
  assumes "phase disk0 st disk log ops asked"
  shows "phase disk0 (st\<lparr>tr_acceptor_open := a, tr_socket := k, tr_file := None\<rparr>) disk log ops asked"
  using assms by (cases "(disk0, st, disk, log, ops, asked)" rule: phase.cases)
    (simp_all add: settled_def offered_def transferring_def)

lemma receiver_step_inv:
  assumes "evp_sha256 evp sha" and "receiver_inv sha disk0 s" and "receiver_step evp s t"
  shows "receiver_inv sha disk0 t"
  using assms(3)
proof cases
  case (complete op data ec env st disk fx)
  have ph: "phase disk0 (rs_state s) (rs_disk s) (rs_log s) (rs_ops s) (rs_asked s)"
    using assms(2) by (simp add: receiver_inv_def)
  with phase_cases [OF ph] complete(2) have o: "rs_ops s = [op]" "\<not> rs_asked s" by auto
  have "good_result sha disk0 (rs_log s) st disk fx \<and> length (tr_buffer st) = MAX_BUFFER_SIZE"
    by (rule receiver_handler_good [OF complete(5) assms(1)])
      (use assms(2) ph o in \<open>simp_all add: receiver_inv_def\<close>)
  with complete(1) o show ?thesis by (simp add: receiver_inv_def rperform_def good_result_def)
next
  case (answer_yes fx)
  have "rs_ops s = []" "offered (rs_state s) (rs_log s)" "settled disk0 (rs_state s) (rs_disk s) (rs_log s)"
    using assms(2) answer_yes(2) phase_cases by (fastforce simp: receiver_inv_def)+
  with answer_yes assms(2) accounted_append [of sha disk0 "rs_disk s" "rs_log s" fx] show ?thesis
    by (auto simp: receiver_inv_def rperform_def accept_def settled_def offered_def split: if_splits)
next
  case (answer_no reason fx)
  have "rs_ops s = []" "settled disk0 (rs_state s) (rs_disk s) (rs_log s)"
    using assms(2) answer_no(2) phase_cases by (fastforce simp: receiver_inv_def)+
  with answer_no assms(2) accounted_append [of sha disk0 "rs_disk s" "rs_log s" fx] show ?thesis
    by (auto simp: receiver_inv_def rperform_def reject_def settled_def split: if_splits)
next
  case (stop env)
  with assms(2) show ?thesis by (auto simp: receiver_inv_def stopReceiver_def phase_stopped)
qed

lemma startReceiver_inv:
  assumes "receiver_init disk0 s"
  shows "receiver_inv sha disk0 s"
  using assms
  by (auto simp: receiver_init_def startReceiver_def listenForConnections_def receiver_inv_def
      rperform_def newTransferReceiver_def settled_def accounted_def split: option.splits)

interpretation receiver_machine:
  state_machine "receiver_init disk0" "receiver_step evp"
    "\<lambda>s. evp_sha256 evp sha \<longrightarrow> receiver_inv sha disk0 s" for disk0 evp sha
  by unfold_locales (auto intro: startReceiver_inv receiver_step_inv)

section \<open>A peer that follows the protocol\<close>

text \<open>What the receiver does with the messages of an offer, up to the question to the user.\<close>

lemma take_frame: "take 22 (frame t s pl @ rest) = serializeHeader (buildHeader t s (of_nat (length pl)))"
  by (simp add: frame_def)

lemma frame_split: "frame t s pl = take 22 (frame t s pl) @ pl"
  by (simp add: frame_def)

lemma receive_header:
  "length (tr_buffer st) = MAX_BUFFER_SIZE \<Longrightarrow> length data = 22 \<Longrightarrow> op = ReadOfferHeader \<or> op = ReadChunkHeader \<Longrightarrow>
   receive_into op data st = Inr (st\<lparr>tr_buffer := overwrite 0 data (tr_buffer st)\<rparr>)"
  by (auto simp: receive_into_def)

lemma receive_none:
  "length (tr_buffer st) = MAX_BUFFER_SIZE \<Longrightarrow> receive_into op [] st = Inr st"
  by (cases op) (simp_all add: receive_into_def overwrite_def)

lemma receive_body:
  "length (tr_buffer st) = MAX_BUFFER_SIZE \<Longrightarrow> length data \<le> 32746 \<Longrightarrow>
   op = ReadOfferBody h \<or> op = ReadChunkBody n \<Longrightarrow>
   receive_into op data st = Inr (st\<lparr>tr_buffer := overwrite 22 data (tr_buffer st)\<rparr>)"
  by (auto simp: receive_into_def)

lemma header_of_frame:
  assumes "length (tr_buffer st) = MAX_BUFFER_SIZE"
  shows "deserializeHeader (overwrite 0 (take 22 (frame t s pl)) (tr_buffer st)) None
    = Inr (True, Some ((buildHeader t s (of_nat (length pl)))
        \<lparr>header_crc := crc_of (buildHeader t s (of_nat (length pl)))\<rparr>))"
  using take_frame [of t s pl "[]"]
  by (simp add: overwrite_0 deserializeHeader_serializeHeader wf_header_def)

definition header_for :: "MessageType \<Rightarrow> u64 \<Rightarrow> bytes \<Rightarrow> BaseHeader" where
  "header_for t s pl = (let h = buildHeader t s (of_nat (length pl)) in h\<lparr>header_crc := crc_of h\<rparr>)"

lemma header_for_simps [simp]:
  "msg_type (header_for t s pl) = t" "session_id (header_for t s pl) = s"
  "payload_len (header_for t s pl) = of_nat (length pl)"
  by (simp_all add: header_for_def buildHeader_def Let_def)

lemma connection_accepted:
  "length (tr_buffer st) = MAX_BUFFER_SIZE \<Longrightarrow> receiver_handler evp env st disk AcceptConnection None []
     = Inr (st\<lparr>tr_socket := Some True\<rparr>, disk, [RStart ServerHandshake])"
  by (simp add: receiver_handler_def receive_none on_accepted_def)

lemma handshake_completed:
  "length (tr_buffer st) = MAX_BUFFER_SIZE \<Longrightarrow> receiver_handler evp env st disk ServerHandshake None []
     = Inr (st, disk, [RStart ReadOfferHeader])"
  by (simp add: receiver_handler_def receive_none on_server_handshake_def)

lemma offer_header_read:
  assumes "length (tr_buffer st) = MAX_BUFFER_SIZE" and "length pl \<le> 32746"
  shows "receiver_handler evp env st disk ReadOfferHeader None (take 22 (frame TRANSFER_OFFER sid pl))
    = Inr (st\<lparr>tr_buffer := overwrite 0 (take 22 (frame TRANSFER_OFFER sid pl)) (tr_buffer st),
        tr_pending_session_id := sid\<rparr>, disk, [RStart (ReadOfferBody (header_for TRANSFER_OFFER sid pl))])"
proof -
  have "unat (of_nat (length pl) :: u32) = length pl" using assms(2) by (intro unat_of_nat_32) simp
  then show ?thesis
    using assms header_of_frame [OF assms(1), of TRANSFER_OFFER sid pl]
    by (simp add: receiver_handler_def receive_header on_offer_header_def header_for_def Let_def)
qed

lemma offer_body_read:
  assumes "length (tr_buffer st) = MAX_BUFFER_SIZE" and "wf_offer offer" and "length (serializeOffer offer) \<le> 32746"
    and "payload_len h = of_nat (length (serializeOffer offer))"
    and "\<forall>valid. re_valid env = Some valid \<longrightarrow> valid (op_device_name offer)"
  shows "receiver_handler evp env st disk (ReadOfferBody h) None (serializeOffer offer)
    = Inr (st\<lparr>tr_buffer := overwrite 22 (serializeOffer offer) (tr_buffer st), tr_pending_offer := Some offer,
        tr_file_size := op_file_size offer\<rparr>, disk, [ROffer offer])"
proof -
  let ?d = "serializeOffer offer" and ?b = "tr_buffer st"
  have n: "unat (payload_len h) = length ?d" unfolding assms(4) using assms(3) by (intro unat_of_nat_32) simp
  have b: "drop 22 (overwrite 22 ?d ?b) = ?d @ drop (22 + length ?d) ?b"
    using assms(1) by (simp add: drop_overwrite)
  have "deserializeOffer (drop 22 (overwrite 22 ?d ?b)) (unat (payload_len h)) None = Inr (True, Some offer)"
    unfolding b n by (rule offer_codec.deser_ser [OF assms(2)])
  with assms(1,3,5) show ?thesis
    by (auto simp: receiver_handler_def receive_body on_offer_body_def Let_def split: option.splits)
qed

section \<open>Properties\<close>

lemma phase_dom:
  assumes "phase disk0 st disk log ops asked"
  shows "dom disk \<subseteq> dom disk0 \<union> received log \<union> {tr_file_path st}
    \<and> ((\<forall>n. ops \<noteq> [ReadChunkHeader] \<and> ops \<noteq> [ReadChunkBody n]) \<longrightarrow> dom disk = dom disk0 \<union> received log)"
  using assms by (cases "(disk0, st, disk, log, ops, asked)" rule: phase.cases)
    (simp_all add: settled_def transferring_def, blast+)

text \<open>
  C2. A started receiver, against any peer, any errors, any answers of the user and any time of
  \<open>stop\<close>: no file that was on the disk is ever changed or removed; every file reported as received
  is new, still on the disk, and its digest is the one announced in an offer shown to the user;
  unless a transfer is running, these are all the files there are, so that a failed or rejected
  transfer leaves nothing behind; and at most one operation is outstanding.
\<close>

theorem receiver_execution:
  assumes "evp_sha256 evp sha" and "receiver_init disk0 s0" and "(receiver_step evp)\<^sup>*\<^sup>* s0 s"
  shows "(\<forall>p c. disk0 p = Some c \<longrightarrow> rs_disk s p = Some c)
    \<and> (\<forall>p. RComplete True p \<in> set (rs_log s) \<longrightarrow> disk0 p = None
        \<and> (\<exists>op c. ROffer op \<in> set (rs_log s) \<and> rs_disk s p = Some c \<and> sha c = op_sha256 op))
    \<and> ((\<forall>n. rs_ops s \<noteq> [ReadChunkHeader] \<and> rs_ops s \<noteq> [ReadChunkBody n]) \<longrightarrow>
        dom (rs_disk s) = dom disk0 \<union> {p. RComplete True p \<in> set (rs_log s)})
    \<and> dom (rs_disk s) \<subseteq> dom disk0 \<union> {p. RComplete True p \<in> set (rs_log s)} \<union> {tr_file_path (rs_state s)}
    \<and> length (rs_ops s) \<le> 1"
proof -
  have inv: "receiver_inv sha disk0 s"
    using receiver_machine.reachable_inv [OF assms(2,3), of sha] assms(1) by blast
  then have ph: "phase disk0 (rs_state s) (rs_disk s) (rs_log s) (rs_ops s) (rs_asked s)"
    and ac: "accounted sha disk0 (rs_disk s) (rs_log s)" by (simp_all add: receiver_inv_def)
  have "\<forall>p c. disk0 p = Some c \<longrightarrow> rs_disk s p = Some c"
    using ac unfolding accounted_def by (metis domI)
  moreover have "\<forall>p \<in> received (rs_log s). disk0 p = None
      \<and> (\<exists>op c. ROffer op \<in> set (rs_log s) \<and> rs_disk s p = Some c \<and> sha c = op_sha256 op)"
    using ac unfolding accounted_def by blast
  ultimately show ?thesis
    using phase_dom [OF ph] phase_cases [OF ph] unfolding received_def by auto
qed

definition sample_renv :: receiver_env where
  "sample_renv = \<lparr>re_folder = \<lparr>fe_xdg = Some [100], fe_home = None, fe_pipe = None, fe_is_directory = (\<lambda>_. True)\<rparr>,
     re_stat_ok = (\<lambda>_. True), re_other = (\<lambda>_. False), re_create_ok = (\<lambda>_. True), re_remove_ok = (\<lambda>_. True),
     re_room = 1000000, re_write_ok = True, re_valid = None, re_bind_ok = (\<lambda>p. p = 50002), re_close_ok = True\<rparr>"

definition sample_receiver :: TransferReceiver where
  "sample_receiver = (newTransferReceiver 50001 0 0 (replicate MAX_BUFFER_SIZE 0))
     \<lparr>tr_listen_port := 50002, tr_acceptor_open := True, tr_socket := Some False\<rparr>"

lemma sample_receiver_started:
  "startReceiver sample_renv (newTransferReceiver 50001 0 0 (replicate MAX_BUFFER_SIZE 0))
     = (True, sample_receiver, [RStart AcceptConnection])"
  by (simp add: startReceiver_def sample_renv_def newTransferReceiver_def bind_loop.simps TCP_PORT_MAX_def
      listenForConnections_def sample_receiver_def)

definition sample_rsys :: "disk \<Rightarrow> receiver_sys" where
  "sample_rsys disk0 = \<lparr>rs_state = sample_receiver, rs_disk = disk0, rs_ops = [AcceptConnection],
     rs_asked = False, rs_log = [RStart AcceptConnection]\<rparr>"

lemma sample_receiver_init: "receiver_init disk0 (sample_rsys disk0)"
proof -
  have "length (replicate MAX_BUFFER_SIZE (0 :: u8)) = MAX_BUFFER_SIZE" by simp
  moreover have "sample_rsys disk0 = rperform [RStart AcceptConnection]
      \<lparr>rs_state = sample_receiver, rs_disk = disk0, rs_ops = [], rs_asked = False, rs_log = []\<rparr>"
    by (simp add: rperform_def sample_rsys_def)
  ultimately show ?thesis
    using sample_receiver_started unfolding receiver_init_def by blast
qed

theorem receiver_execution_witness:
  "\<exists>s. (receiver_step pad_evp)\<^sup>*\<^sup>* (sample_rsys [[97] \<mapsto> [1]]) s \<and> rs_ops s = [ServerHandshake]
     \<and> rs_disk s [97] = Some [1]"
proof -
  let ?init = "sample_rsys [[97] \<mapsto> [1]]"
  let ?next = "rperform [RStart ServerHandshake] (?init\<lparr>rs_state := sample_receiver\<lparr>tr_socket := Some True\<rparr>,
    rs_disk := [[97] \<mapsto> [1]], rs_ops := []\<rparr>)"
  have "receiver_handler pad_evp sample_renv sample_receiver [[97] \<mapsto> [1]] AcceptConnection None []
      = Inr (sample_receiver\<lparr>tr_socket := Some True\<rparr>, [[97] \<mapsto> [1]], [RStart ServerHandshake])"
    by (simp add: receiver_handler_def receive_into_def on_accepted_def overwrite_def)
  then have "receiver_step pad_evp ?init ?next"
    using receiver_step.complete [of AcceptConnection ?init "[]" None pad_evp sample_renv]
    by (simp add: sample_rsys_def)
  then have r: "(receiver_step pad_evp)\<^sup>*\<^sup>* ?init ?next" ..
  have "rs_disk ?next [97] = Some [1]"
    using receiver_execution [OF pad_evp_sha256 sample_receiver_init r] by simp
  moreover have "rs_ops ?next = [ServerHandshake]" by (simp add: rperform_def)
  ultimately show ?thesis using r by blast
qed

text \<open>
  C21. The size of a chunk is not checked: a valid chunk header makes the receiver read as many
  bytes as the header says, behind the header in its buffer of 32768 bytes. The handler writes
  outside the buffer exactly when the announced size is more than 32746.
\<close>

theorem receiver_chunk_overflow:
  assumes "length (tr_buffer st) = MAX_BUFFER_SIZE"
  shows "(\<exists>st'. receiver_handler evp env st disk ReadChunkHeader None
            (serializeHeader (buildHeader DATA_CHUNK sid n)) = Inr (st', disk, [RStart (ReadChunkBody n)]))
    \<and> (length data = unat n \<longrightarrow>
        (receiver_handler evp env st disk (ReadChunkBody n) None data = Inl OutOfBounds
         \<longleftrightarrow> MAX_BUFFER_SIZE - HEADER_SIZE < unat n))"
proof -
  let ?h = "buildHeader DATA_CHUNK sid n"
  have "deserializeHeader (overwrite 0 (serializeHeader ?h) (tr_buffer st)) None
      = Inr (True, Some (?h\<lparr>header_crc := crc_of ?h\<rparr>))"
    by (simp add: overwrite_0 deserializeHeader_serializeHeader wf_header_def)
  then have "\<exists>st'. receiver_handler evp env st disk ReadChunkHeader None (serializeHeader ?h)
      = Inr (st', disk, [RStart (ReadChunkBody n)])"
    using assms by (simp add: receiver_handler_def receive_into_def on_chunk_header_def)
  moreover have "receiver_handler evp env st disk (ReadChunkBody n) None data = Inl OutOfBounds
      \<longleftrightarrow> MAX_BUFFER_SIZE - HEADER_SIZE < unat n" if "length data = unat n"
    using assms that by (auto simp: receiver_handler_def receive_into_def poke_def on_chunk_body_def
        split: prod.splits)
  ultimately show ?thesis by blast
qed

theorem receiver_chunk_overflow_witness:
  "receiver_handler pad_evp sample_renv sample_receiver Map.empty (ReadChunkBody 40000) None
     (replicate 40000 0) = Inl OutOfBounds"
  using receiver_chunk_overflow [where st = sample_receiver and n = 40000 and data = "replicate 40000 0"
      and evp = pad_evp and env = sample_renv and disk = Map.empty]
  by (simp add: sample_receiver_def newTransferReceiver_def)

lemma deaf_forever:
  assumes "rs_ops s = []" and "\<not> rs_asked s" and "(receiver_step evp)\<^sup>*\<^sup>* s t"
  shows "rs_ops t = [] \<and> \<not> rs_asked t \<and> rs_log t = rs_log s"
  using assms(3,1,2)
proof (induction rule: rtranclp_induct)
  case (step t u)
  from step.hyps(2) show ?case
    by cases (use step in auto)
qed simp

text \<open>The handler of the only operation starts none and reports nothing, and nothing ever happens afterwards.\<close>

definition deaf_after ::
  "'ctx evp \<Rightarrow> receiver_env \<Rightarrow> receiver_sys \<Rightarrow> receiver_op \<Rightarrow> ec \<Rightarrow> bytes \<Rightarrow> bool" where
  "deaf_after evp env s op ec data \<longleftrightarrow>
     (\<exists>st. receiver_handler evp env (rs_state s) (rs_disk s) op ec data = Inr (st, rs_disk s, [])
       \<and> (let t = s\<lparr>rs_state := st, rs_ops := []\<rparr> in receiver_step evp s t
          \<and> (\<forall>u. (receiver_step evp)\<^sup>*\<^sup>* t u \<longrightarrow> rs_ops u = [] \<and> \<not> rs_asked u \<and> rs_log u = rs_log s)))"

lemma deaf_afterI:
  assumes "rs_ops s = [op]" and "\<not> rs_asked s" and "length data \<le> receiver_reads op"
    and "ec = None \<longrightarrow> length data = receiver_reads op"
    and "receiver_handler evp env (rs_state s) (rs_disk s) op ec data = Inr (st, rs_disk s, [])"
  shows "deaf_after evp env s op ec data"
proof -
  let ?t = "s\<lparr>rs_state := st, rs_ops := []\<rparr>"
  have "rperform [] (s\<lparr>rs_state := st, rs_disk := rs_disk s, rs_ops := remove1 op (rs_ops s)\<rparr>) = ?t"
    using assms(1) by (simp add: rperform_def)
  then have "receiver_step evp s ?t"
    using receiver_step.complete [of op s data ec evp env st "rs_disk s" "[]"] assms by simp
  moreover have t: "rs_ops ?t = []" "\<not> rs_asked ?t" "rs_log ?t = rs_log s" using assms(2) by simp_all
  have "\<forall>u. (receiver_step evp)\<^sup>*\<^sup>* ?t u \<longrightarrow> rs_ops u = [] \<and> \<not> rs_asked u \<and> rs_log u = rs_log s"
    using deaf_forever [OF t(1,2)] unfolding t(3) by blast
  ultimately show ?thesis using assms(5) unfolding deaf_after_def Let_def by (intro exI [of _ st] conjI)
qed

lemma receive_into_fits:
  assumes "length (tr_buffer st) = MAX_BUFFER_SIZE" and "length data \<le> receiver_reads op"
    and "op \<in> {ServerHandshake, ReadOfferHeader, WriteAccept m} \<or>
      op = ReadOfferBody header \<and> unat (payload_len header) \<le> MAX_BUFFER_SIZE - HEADER_SIZE"
  shows "\<exists>buffer. receive_into op data st = Inr (st\<lparr>tr_buffer := buffer\<rparr>)"
  using assms(3,1,2) by (elim disjE conjE insertE emptyE) (simp_all add: receive_into_def poke_def, blast+)

lemma offer_header_ignored:
  assumes "length (tr_buffer st) = MAX_BUFFER_SIZE" and "length bs = HEADER_SIZE"
    and "deserializeHeader bs None = Inr (True, Some header)"
    and "msg_type header \<noteq> TRANSFER_OFFER \<or> MAX_BUFFER_SIZE - HEADER_SIZE < unat (payload_len header)"
  shows "\<exists>st'. receiver_handler evp env st disk ReadOfferHeader None bs = Inr (st', disk, [])"
  using deserializeHeader_append [of bs _ None] assms
  by (auto simp: receiver_handler_def receive_into_def on_offer_header_def overwrite_0)

lemma no_file_no_transfer:
  assumes "tr_pending_offer st = Some offer" and "tr_file st = None"
    and "resolveFilePath (path_exists env disk) (getDownloadsFolder (re_folder env)) (op_file_name offer) = Inr p"
    and "\<not> re_create_ok env p"
  shows "\<exists>st'. receiver_handler evp env st disk (WriteAccept m) None [] = Inr (st', disk, [])"
  using assms
  by (simp add: receiver_handler_def receive_into_def on_accept_sent_def open_out_def poke_def overwrite_def)

text \<open>
  C22. Every error before the transfer runs makes the receiver deaf. Whatever error ends the handshake, the
  reading of the offer's header or body or the sending of the acceptance, and however many bytes were
  read by then, the handler returns without listening again; the same holds for a valid header that is
  not that of an offer or announces too much, and for an accepted file that cannot be created. From then on no
  operation is ever outstanding and nothing is ever reported.
\<close>

theorem receiver_goes_deaf:
  assumes "rs_ops s = [op]" and "\<not> rs_asked s" and "length (tr_buffer (rs_state s)) = MAX_BUFFER_SIZE"
  shows "(op \<in> {ServerHandshake, ReadOfferHeader, WriteAccept m} \<or>
        op = ReadOfferBody header \<and> unat (payload_len header) \<le> MAX_BUFFER_SIZE - HEADER_SIZE \<longrightarrow>
        (\<forall>e data. length data \<le> receiver_reads op \<longrightarrow> deaf_after evp env s op (Some e) data))
    \<and> (op = ReadOfferHeader \<longrightarrow>
        (\<forall>bs h. length bs = HEADER_SIZE \<and> deserializeHeader bs None = Inr (True, Some h)
          \<and> (msg_type h \<noteq> TRANSFER_OFFER \<or> MAX_BUFFER_SIZE - HEADER_SIZE < unat (payload_len h))
          \<longrightarrow> deaf_after evp env s op None bs))
    \<and> (op = WriteAccept m \<longrightarrow>
        (\<forall>offer p. tr_pending_offer (rs_state s) = Some offer \<and> tr_file (rs_state s) = None
          \<and> resolveFilePath (path_exists env (rs_disk s)) (getDownloadsFolder (re_folder env)) (op_file_name offer) = Inr p
          \<and> \<not> re_create_ok env p \<longrightarrow> deaf_after evp env s op None []))"
proof (intro conjI impI allI)
  fix e and data :: bytes
  assume op: "op \<in> {ServerHandshake, ReadOfferHeader, WriteAccept m} \<or>
      op = ReadOfferBody header \<and> unat (payload_len header) \<le> MAX_BUFFER_SIZE - HEADER_SIZE"
    and data: "length data \<le> receiver_reads op"
  obtain buffer where "receive_into op data (rs_state s) = Inr ((rs_state s)\<lparr>tr_buffer := buffer\<rparr>)"
    using receive_into_fits [OF assms(3) data op] by blast
  then have "receiver_handler evp env (rs_state s) (rs_disk s) op (Some e) data
      = Inr ((rs_state s)\<lparr>tr_buffer := buffer\<rparr>, rs_disk s, [])"
    using op by (auto simp: receiver_handler_def on_server_handshake_def on_offer_header_def on_offer_body_def
        on_accept_sent_def)
  then show "deaf_after evp env s op (Some e) data" by (rule deaf_afterI [OF assms(1,2) data, rotated]) simp
next
  fix bs h
  assume "op = ReadOfferHeader" and h: "length bs = HEADER_SIZE \<and> deserializeHeader bs None = Inr (True, Some h)
      \<and> (msg_type h \<noteq> TRANSFER_OFFER \<or> MAX_BUFFER_SIZE - HEADER_SIZE < unat (payload_len h))"
  then show "deaf_after evp env s op None bs"
    using offer_header_ignored [OF assms(3), of bs h evp env "rs_disk s"] deaf_afterI [OF assms(1,2), of bs None] by auto
next
  fix offer p
  assume "op = WriteAccept m" and "tr_pending_offer (rs_state s) = Some offer \<and> tr_file (rs_state s) = None
      \<and> resolveFilePath (path_exists env (rs_disk s)) (getDownloadsFolder (re_folder env)) (op_file_name offer) = Inr p
      \<and> \<not> re_create_ok env p"
  then show "deaf_after evp env s op None []"
    using no_file_no_transfer [of "rs_state s" offer env "rs_disk s" p evp m] deaf_afterI [OF assms(1,2), of "[]" None] by auto
qed

theorem receiver_goes_deaf_witness:
  "deaf_after pad_evp sample_renv ((sample_rsys Map.empty)\<lparr>rs_ops := [ReadOfferHeader]\<rparr>) ReadOfferHeader
     (Some other_error) [1, 2, 3]"
proof -
  let ?s = "(sample_rsys Map.empty)\<lparr>rs_ops := [ReadOfferHeader]\<rparr>"
  have "rs_ops ?s = [ReadOfferHeader]" "\<not> rs_asked ?s" "length (tr_buffer (rs_state ?s)) = MAX_BUFFER_SIZE"
    by (simp_all add: sample_rsys_def sample_receiver_def newTransferReceiver_def)
  from receiver_goes_deaf [OF this, of undefined undefined pad_evp sample_renv] show ?thesis by simp
qed

text \<open>
  C24. Like the sender, the receiver does not look at the result of \<open>deserializeHeader\<close>: 22 bytes
  that do not form a valid header, where the offer or a chunk is expected, make it read a struct
  that was never written.
\<close>

theorem receiver_invalid_header:
  assumes "length (tr_buffer st) = MAX_BUFFER_SIZE" and "length bs = HEADER_SIZE"
    and "deserializeHeader bs None = Inr (False, None)"
  shows "receiver_handler evp env st disk ReadOfferHeader None bs = Inl Uninitialised
    \<and> receiver_handler evp env st disk ReadChunkHeader None bs = Inl Uninitialised"
  using deserializeHeader_append [of bs _ None] assms
  by (simp add: receiver_handler_def receive_into_def on_offer_header_def on_chunk_header_def overwrite_0)

theorem receiver_invalid_header_witness:
  "receiver_handler pad_evp sample_renv sample_receiver Map.empty ReadChunkHeader None
     (replicate HEADER_SIZE 0) = Inl Uninitialised"
proof -
  have "deserializeHeader (replicate HEADER_SIZE 0) None = Inr (False, None)"
    by (rule deserializeHeader_bad_magic) simp_all
  then show ?thesis
    using receiver_invalid_header [of sample_receiver "replicate HEADER_SIZE 0" pad_evp sample_renv Map.empty]
    by (simp add: sample_receiver_def newTransferReceiver_def)
qed

lemma port_successor: "(port :: u16) \<le> TCP_PORT_MAX \<Longrightarrow> unat (port + 1) = unat port + 1"
  by (subst unat_add_lem [THEN iffD1]) (auto simp: TCP_PORT_MAX_def word_le_nat_alt)

lemma bind_loop_spec:
  "case bind_loop ok port of
     Some q \<Rightarrow> port \<le> q \<and> q \<le> TCP_PORT_MAX \<and> ok q \<and> (\<forall>r. port \<le> r \<and> r < q \<longrightarrow> \<not> ok r)
   | None \<Rightarrow> \<forall>r. port \<le> r \<and> r \<le> TCP_PORT_MAX \<longrightarrow> \<not> ok r"
proof (induction ok port rule: bind_loop.induct)
  case (1 ok port)
  show ?case
  proof (cases "port \<le> TCP_PORT_MAX \<and> \<not> ok port")
    case True
    have s: "r = port \<or> port + 1 \<le> r" if "port \<le> r" for r
      using that port_successor [of port] True
      by (auto simp: word_le_nat_alt word_unat_eq_iff)
    have le: "port \<le> port + 1" using port_successor [of port] True by (simp add: word_le_nat_alt)
    have b: "bind_loop ok port = bind_loop ok (port + 1)" using True by (subst bind_loop.simps) simp
    from 1 True have IH: "case bind_loop ok (port + 1) of
       Some q \<Rightarrow> port + 1 \<le> q \<and> q \<le> TCP_PORT_MAX \<and> ok q \<and> (\<forall>r. port + 1 \<le> r \<and> r < q \<longrightarrow> \<not> ok r)
     | None \<Rightarrow> \<forall>r. port + 1 \<le> r \<and> r \<le> TCP_PORT_MAX \<longrightarrow> \<not> ok r" by blast
    show ?thesis
    proof (cases "bind_loop ok (port + 1)")
      case None
      with IH s True show ?thesis unfolding b by auto
    next
      case (Some q)
      with IH s True le show ?thesis unfolding b by (auto intro: order_trans)
    qed
  next
    case False
    then show ?thesis by (subst bind_loop.simps) (auto intro: order_trans)
  qed
qed

text \<open>
  \<open>start\<close> takes the first port from the configured one up to 50100 that can be bound, reports
  it through \<open>getPort\<close> and begins to listen; it fails exactly when no port of that range can be
  bound, in particular always when the configured port is above 50100.
\<close>

theorem startReceiver_port:
  "case startReceiver env st of
     (True, st', fx) \<Rightarrow> tr_listen_port st \<le> getPort st' \<and> getPort st' \<le> TCP_PORT_MAX
       \<and> re_bind_ok env (getPort st') \<and> fx = [RStart AcceptConnection]
       \<and> (\<forall>q. tr_listen_port st \<le> q \<and> q < getPort st' \<longrightarrow> \<not> re_bind_ok env q)
   | (False, st', fx) \<Rightarrow> fx = [] \<and> getPort st' = tr_listen_port st
       \<and> (\<forall>q. tr_listen_port st \<le> q \<and> q \<le> TCP_PORT_MAX \<longrightarrow> \<not> re_bind_ok env q)"
  using bind_loop_spec [where ok = "re_bind_ok env" and port = "tr_listen_port st"]
  by (cases "bind_loop (re_bind_ok env) (tr_listen_port st)")
    (simp_all add: startReceiver_def listenForConnections_def getPort_def)

theorem startReceiver_port_witness:
  "case startReceiver sample_renv (newTransferReceiver 50001 0 0 (replicate MAX_BUFFER_SIZE 0)) of
     (ok, st', fx) \<Rightarrow> ok \<and> getPort st' = 50002 \<and> getPort st' \<le> TCP_PORT_MAX"
  using startReceiver_port [where env = sample_renv and st = "newTransferReceiver 50001 0 0 (replicate MAX_BUFFER_SIZE 0)"]
  unfolding sample_receiver_started
  by (simp add: getPort_def sample_receiver_def)

end
