(* ===== verification/Connected_Ends.thy ===== *)
theory Connected_Ends
  imports Sender_System Receiver_System
begin

text \<open>
  A sender and a receiver connected by a reliable byte stream in each direction, and the locale in
  which their runs are analysed: when the phases of the two ends say which bytes each has written
  and read and every phase but the last can be left, all runs have the same length and none gets
  stuck. \<open>File_Transfer\<close> interprets it for an offer that is accepted, \<open>File_Refusal\<close> for one that is
  declined.
\<close>

section \<open>The connected system\<close>

record transfer_sys =
  x_snd :: sender_sys
  x_rcv :: receiver_sys
  x_up :: bytes
  x_down :: bytes
  x_backlog :: bool  \<comment> \<open>the sender's connection waits to be accepted\<close>

fun rwire_of :: "receiver_effect \<Rightarrow> bytes" where
  "rwire_of (RWrite m) = m"
| "rwire_of (RStart (WriteAccept m)) = m"
| "rwire_of (RStart (WriteReject m)) = m"
| "rwire_of _ = []"

definition rwire :: "receiver_effect list \<Rightarrow> bytes" where
  "rwire log = concat (map rwire_of log)"

text \<open>The user accepts the offer, or rejects it for the given reason.\<close>

fun user_answer :: "RejectReason option \<Rightarrow> TransferReceiver \<Rightarrow> receiver_effect list run" where
  "user_answer None st = accept st"
| "user_answer (Some reason) st = reject st reason"

text \<open>
  A read completes once enough bytes are in flight; connecting, accepting, the handshake and
  asynchronous writes complete at any time. There is one connection to accept, the sender's.
\<close>

inductive transfer_step ::
  "'ctx evp \<Rightarrow> sender_env \<Rightarrow> receiver_env \<Rightarrow> RejectReason option \<Rightarrow> transfer_sys \<Rightarrow> transfer_sys \<Rightarrow> bool"
  for evp senv renv answer where
  snd: "op \<in> set (ss_ops (x_snd s)) \<Longrightarrow> sender_reads op \<le> length (x_down s) \<Longrightarrow>
    sender_handler senv (ss_state (x_snd s)) op None (take (sender_reads op) (x_down s)) = Inr (st, fx) \<Longrightarrow>
    transfer_step evp senv renv answer s
      (s\<lparr>x_snd := perform fx ((x_snd s)\<lparr>ss_state := st, ss_ops := remove1 op (ss_ops (x_snd s))\<rparr>),
         x_down := drop (sender_reads op) (x_down s), x_up := x_up s @ wire fx\<rparr>)"
| rcv: "op \<in> set (rs_ops (x_rcv s)) \<Longrightarrow> receiver_reads op \<le> length (x_up s) \<Longrightarrow>
    op = AcceptConnection \<longrightarrow> x_backlog s \<Longrightarrow>
    receiver_handler evp renv (rs_state (x_rcv s)) (rs_disk (x_rcv s)) op None
      (take (receiver_reads op) (x_up s)) = Inr (rst, disk, rfx) \<Longrightarrow>
    transfer_step evp senv renv answer s
      (s\<lparr>x_rcv := rperform rfx ((x_rcv s)\<lparr>rs_state := rst, rs_disk := disk,
                    rs_ops := remove1 op (rs_ops (x_rcv s))\<rparr>),
         x_up := drop (receiver_reads op) (x_up s), x_down := x_down s @ rwire rfx,
         x_backlog := (x_backlog s \<and> op \<noteq> AcceptConnection)\<rparr>)"
| user: "rs_asked (x_rcv s) \<Longrightarrow> user_answer answer (rs_state (x_rcv s)) = Inr rfx \<Longrightarrow>
    transfer_step evp senv renv answer s
      (s\<lparr>x_rcv := rperform rfx ((x_rcv s)\<lparr>rs_asked := False\<rparr>), x_down := x_down s @ rwire rfx\<rparr>)"

inductive_cases transfer_stepE: "transfer_step evp senv renv answer s t"

definition transfer_start ::
  "TransferSender \<Rightarrow> sender_effect list \<Rightarrow> TransferReceiver \<Rightarrow> receiver_effect list \<Rightarrow> disk \<Rightarrow> transfer_sys" where
  "transfer_start st0 fx rst rfx disk0 =
     \<lparr>x_snd = perform fx \<lparr>ss_state = st0, ss_ops = [], ss_log = []\<rparr>,
      x_rcv = rperform rfx \<lparr>rs_state = rst, rs_disk = disk0, rs_ops = [], rs_asked = False, rs_log = []\<rparr>,
      x_up = [], x_down = [], x_backlog = True\<rparr>"

lemma prefix_app_take:
  assumes "xs @ ys = zs" and "prefix zs H"
  shows "prefix (xs @ take n ys) H"
  using assms by (metis append_take_drop_id append.assoc prefixI prefix_order.order_trans)

section \<open>Phases\<close>

text \<open>
  Both ends are in a phase, the bytes in flight are what one end has written and the other has not
  read, and \<open>n\<close> steps have been made.
\<close>

definition connected ::
  "('sp \<Rightarrow> sender_sys \<Rightarrow> bool) \<Rightarrow> ('rp \<Rightarrow> receiver_sys \<Rightarrow> bool) \<Rightarrow> ('sp \<Rightarrow> bytes) \<Rightarrow> ('sp \<Rightarrow> bytes)
     \<Rightarrow> ('rp \<Rightarrow> bytes) \<Rightarrow> ('rp \<Rightarrow> bytes) \<Rightarrow> ('sp \<Rightarrow> nat) \<Rightarrow> ('rp \<Rightarrow> nat) \<Rightarrow> nat \<Rightarrow> transfer_sys \<Rightarrow> bool" where
  "connected s_at r_at s_sent s_got r_taken r_replied s_rank r_rank n s \<longleftrightarrow>
     (\<exists>sp rp. s_at sp (x_snd s) \<and> r_at rp (x_rcv s)
        \<and> r_taken rp @ x_up s = s_sent sp \<and> s_got sp @ x_down s = r_replied rp
        \<and> (x_backlog s \<longleftrightarrow> r_rank rp = 0) \<and> s_rank sp + r_rank rp = n)"

locale connected_ends =
  fixes evp :: "'ctx evp" and senv :: sender_env and renv :: receiver_env and answer :: "RejectReason option"
    and s_at :: "'sp \<Rightarrow> sender_sys \<Rightarrow> bool" and r_at :: "'rp \<Rightarrow> receiver_sys \<Rightarrow> bool"
    and s_sent :: "'sp \<Rightarrow> bytes" and s_got :: "'sp \<Rightarrow> bytes"
    and r_taken :: "'rp \<Rightarrow> bytes" and r_replied :: "'rp \<Rightarrow> bytes"
    and s_rank :: "'sp \<Rightarrow> nat" and r_rank :: "'rp \<Rightarrow> nat" and s_last :: nat and r_last :: nat
    and up :: bytes and down :: bytes
  assumes s_one: "s_at sp x \<Longrightarrow> op \<in> set (ss_ops x) \<Longrightarrow> ss_ops x = [op]"
    and r_one: "r_at rp r \<Longrightarrow> rop \<in> set (rs_ops r) \<Longrightarrow> rs_ops r = [rop]"
    and r_waits: "r_at rp r \<Longrightarrow> rs_ops r = [AcceptConnection] \<longleftrightarrow> r_rank rp = 0 \<or> r_rank rp = r_last"
    and r_last_pos: "0 < r_last"
    and r_unasked: "r_at rp r \<Longrightarrow> r_rank rp = 0 \<Longrightarrow> \<not> rs_asked r"
    and s_prefix: "s_at sp x \<Longrightarrow> prefix (s_sent sp) up"
    and r_prefix: "r_at rp r \<Longrightarrow> prefix (r_replied rp) down"
    and s_bound: "s_at sp x \<Longrightarrow> s_rank sp \<le> s_last"
    and r_bound: "r_at rp r \<Longrightarrow> r_rank rp \<le> r_last"
    and s_moves: "s_at sp x \<Longrightarrow> ss_ops x = [op] \<Longrightarrow> length data = sender_reads op \<Longrightarrow>
      prefix (s_got sp @ data) down \<Longrightarrow>
      \<exists>st fx sp'. sender_handler senv (ss_state x) op None data = Inr (st, fx)
        \<and> s_at sp' (perform fx (x\<lparr>ss_state := st, ss_ops := []\<rparr>))
        \<and> s_sent sp' = s_sent sp @ wire fx \<and> s_got sp' = s_got sp @ data \<and> s_rank sp' = Suc (s_rank sp)"
    and r_moves: "r_at rp r \<Longrightarrow> rs_ops r = [rop] \<Longrightarrow> r_rank rp \<noteq> r_last \<Longrightarrow> length data = receiver_reads rop \<Longrightarrow>
      prefix (r_taken rp @ data) up \<Longrightarrow>
      \<exists>st disk fx rp'. receiver_handler evp renv (rs_state r) (rs_disk r) rop None data = Inr (st, disk, fx)
        \<and> r_at rp' (rperform fx (r\<lparr>rs_state := st, rs_disk := disk, rs_ops := []\<rparr>))
        \<and> r_taken rp' = r_taken rp @ data \<and> r_replied rp' = r_replied rp @ rwire fx
        \<and> r_rank rp' = Suc (r_rank rp)"
    and user_moves: "r_at rp r \<Longrightarrow> rs_asked r \<Longrightarrow>
      \<exists>fx rp'. user_answer answer (rs_state r) = Inr fx \<and> r_at rp' (rperform fx (r\<lparr>rs_asked := False\<rparr>))
        \<and> r_taken rp' = r_taken rp \<and> r_replied rp' = r_replied rp @ rwire fx \<and> r_rank rp' = Suc (r_rank rp)"
    and enabled: "s_at sp x \<Longrightarrow> r_at rp r \<Longrightarrow> s_rank sp + r_rank rp < s_last + r_last \<Longrightarrow>
      length (s_got sp) \<le> length (r_replied rp) \<Longrightarrow> length (r_taken rp) \<le> length (s_sent sp) \<Longrightarrow>
      (\<exists>op. ss_ops x = [op] \<and> length (s_got sp) + sender_reads op \<le> length (r_replied rp)) \<or> rs_asked r
      \<or> (\<exists>op. rs_ops r = [op] \<and> r_rank rp \<noteq> r_last \<and> length (r_taken rp) + receiver_reads op \<le> length (s_sent sp))"
begin

abbreviation inv :: "nat \<Rightarrow> transfer_sys \<Rightarrow> bool" where
  "inv \<equiv> connected s_at r_at s_sent s_got r_taken r_replied s_rank r_rank"

abbreviation step :: "transfer_sys \<Rightarrow> transfer_sys \<Rightarrow> bool" where
  "step \<equiv> transfer_step evp senv renv answer"

lemma invE:
  assumes "inv n s"
  obtains sp rp where "s_at sp (x_snd s)" "r_at rp (x_rcv s)" "r_taken rp @ x_up s = s_sent sp"
    "s_got sp @ x_down s = r_replied rp" "x_backlog s \<longleftrightarrow> r_rank rp = 0" "s_rank sp + r_rank rp = n"
  using assms that unfolding connected_def by auto

lemma sender_reaction:
  assumes "inv n s" and "op \<in> set (ss_ops (x_snd s))" and l: "sender_reads op \<le> length (x_down s)"
  shows "\<exists>st fx. sender_handler senv (ss_state (x_snd s)) op None (take (sender_reads op) (x_down s)) = Inr (st, fx)
    \<and> inv (Suc n) (s\<lparr>x_snd := perform fx ((x_snd s)\<lparr>ss_state := st, ss_ops := remove1 op (ss_ops (x_snd s))\<rparr>),
         x_down := drop (sender_reads op) (x_down s), x_up := x_up s @ wire fx\<rparr>)"
  using assms(1)
proof (rule invE)
  fix sp rp
  assume i: "s_at sp (x_snd s)" "r_at rp (x_rcv s)" "r_taken rp @ x_up s = s_sent sp"
    "s_got sp @ x_down s = r_replied rp" "x_backlog s \<longleftrightarrow> r_rank rp = 0" "s_rank sp + r_rank rp = n"
  let ?d = "take (sender_reads op) (x_down s)"
  note one = s_one [OF i(1) assms(2)]
  obtain st fx sp' where h: "sender_handler senv (ss_state (x_snd s)) op None ?d = Inr (st, fx)"
    and "s_at sp' (perform fx ((x_snd s)\<lparr>ss_state := st, ss_ops := []\<rparr>))" "s_sent sp' = s_sent sp @ wire fx"
    "s_got sp' = s_got sp @ ?d" "s_rank sp' = Suc (s_rank sp)"
    using s_moves [OF i(1) one _ prefix_app_take [OF i(4) r_prefix [OF i(2)], of "sender_reads op"]] l by auto
  then have "inv (Suc n) (s\<lparr>x_snd := perform fx ((x_snd s)\<lparr>ss_state := st, ss_ops := remove1 op (ss_ops (x_snd s))\<rparr>),
         x_down := drop (sender_reads op) (x_down s), x_up := x_up s @ wire fx\<rparr>)"
    using i(1,2,4-6) one unfolding connected_def by (intro exI [of _ sp'] exI [of _ rp]) (simp flip: i(3))
  with h show ?thesis by blast
qed

lemma receiver_reaction:
  assumes "inv n s" and "op \<in> set (rs_ops (x_rcv s))" and l: "receiver_reads op \<le> length (x_up s)"
    and b: "op = AcceptConnection \<longrightarrow> x_backlog s"
  shows "\<exists>st disk fx. receiver_handler evp renv (rs_state (x_rcv s)) (rs_disk (x_rcv s)) op None
        (take (receiver_reads op) (x_up s)) = Inr (st, disk, fx)
    \<and> inv (Suc n) (s\<lparr>x_rcv := rperform fx ((x_rcv s)\<lparr>rs_state := st, rs_disk := disk,
           rs_ops := remove1 op (rs_ops (x_rcv s))\<rparr>),
         x_up := drop (receiver_reads op) (x_up s), x_down := x_down s @ rwire fx,
         x_backlog := (x_backlog s \<and> op \<noteq> AcceptConnection)\<rparr>)"
  using assms(1)
proof (rule invE)
  fix sp rp
  assume i: "s_at sp (x_snd s)" "r_at rp (x_rcv s)" "r_taken rp @ x_up s = s_sent sp"
    "s_got sp @ x_down s = r_replied rp" "x_backlog s \<longleftrightarrow> r_rank rp = 0" "s_rank sp + r_rank rp = n"
  let ?d = "take (receiver_reads op) (x_up s)"
  note one = r_one [OF i(2) assms(2)] and w = r_waits [OF i(2)]
  have nl: "r_rank rp \<noteq> r_last" using w one b i(5) r_last_pos by auto
  obtain st disk fx rp' where h: "receiver_handler evp renv (rs_state (x_rcv s)) (rs_disk (x_rcv s)) op None ?d
      = Inr (st, disk, fx)"
    and "r_at rp' (rperform fx ((x_rcv s)\<lparr>rs_state := st, rs_disk := disk, rs_ops := []\<rparr>))"
    "r_taken rp' = r_taken rp @ ?d" "r_replied rp' = r_replied rp @ rwire fx" "r_rank rp' = Suc (r_rank rp)"
    using r_moves [OF i(2) one nl _ prefix_app_take [OF i(3) s_prefix [OF i(1)], of "receiver_reads op"]] l by auto
  moreover have "\<not> (x_backlog s \<and> op \<noteq> AcceptConnection)" using i(5) w one by auto
  ultimately show ?thesis
    using i(1-3,5,6) one unfolding connected_def
    by (intro exI [of _ st] exI [of _ disk] exI [of _ fx] conjI exI [of _ sp] exI [of _ rp']) (simp_all flip: i(4))
qed

lemma user_reaction:
  assumes "inv n s" and a: "rs_asked (x_rcv s)"
  shows "\<exists>fx. user_answer answer (rs_state (x_rcv s)) = Inr fx
    \<and> inv (Suc n) (s\<lparr>x_rcv := rperform fx ((x_rcv s)\<lparr>rs_asked := False\<rparr>), x_down := x_down s @ rwire fx\<rparr>)"
  using assms(1)
proof (rule invE)
  fix sp rp
  assume i: "s_at sp (x_snd s)" "r_at rp (x_rcv s)" "r_taken rp @ x_up s = s_sent sp"
    "s_got sp @ x_down s = r_replied rp" "x_backlog s \<longleftrightarrow> r_rank rp = 0" "s_rank sp + r_rank rp = n"
  obtain fx rp' where h: "user_answer answer (rs_state (x_rcv s)) = Inr fx"
    and "r_at rp' (rperform fx ((x_rcv s)\<lparr>rs_asked := False\<rparr>))" "r_taken rp' = r_taken rp"
    "r_replied rp' = r_replied rp @ rwire fx" "r_rank rp' = Suc (r_rank rp)"
    using user_moves [OF i(2) a] by auto
  with i(1-3,5,6) r_unasked [OF i(2)] a show ?thesis
    unfolding connected_def by (intro exI [of _ fx] conjI exI [of _ sp] exI [of _ rp']) (auto simp flip: i(4))
qed

text \<open>Every step brings the system one phase further, and every phase but the last can be left.\<close>

lemma step_inv:
  assumes "inv n s" and "step s t"
  shows "inv (Suc n) t"
  using assms(2)
proof (rule transfer_stepE)
qed (use sender_reaction [OF assms(1)] receiver_reaction [OF assms(1)] user_reaction [OF assms(1)] in fastforce)+

lemma can_step:
  assumes "inv n s" and "n < s_last + r_last"
  shows "\<exists>t. step s t"
  using assms(1)
proof (rule invE)
  fix sp rp
  assume i: "s_at sp (x_snd s)" "r_at rp (x_rcv s)" "r_taken rp @ x_up s = s_sent sp"
    "s_got sp @ x_down s = r_replied rp" "x_backlog s \<longleftrightarrow> r_rank rp = 0" "s_rank sp + r_rank rp = n"
  have l: "length (r_taken rp) + length (x_up s) = length (s_sent sp)"
    "length (s_got sp) + length (x_down s) = length (r_replied rp)"
    by (simp_all flip: i(3,4))
  consider (s) op where "ss_ops (x_snd s) = [op]" "sender_reads op \<le> length (x_down s)" | (u) "rs_asked (x_rcv s)"
    | (r) op where "rs_ops (x_rcv s) = [op]" "r_rank rp \<noteq> r_last" "receiver_reads op \<le> length (x_up s)"
    using enabled [OF i(1,2)] assms(2) i(6) l by fastforce
  then show ?thesis
  proof cases
    case s
    with sender_reaction [OF assms(1), of op] transfer_step.snd [of op s] show ?thesis by fastforce
  next
    case u
    with user_reaction [OF assms(1)] transfer_step.user [of s] show ?thesis by fastforce
  next
    case r
    have b: "op = AcceptConnection \<longrightarrow> x_backlog s" using r(1,2) r_waits [OF i(2)] i(5) by auto
    with r receiver_reaction [OF assms(1), of op] transfer_step.rcv [of op s] show ?thesis by fastforce
  qed
qed

lemma run_inv: "(step ^^ n) s t \<Longrightarrow> inv m s \<Longrightarrow> inv (m + n) t"
  by (induction n arbitrary: t) (auto dest: step_inv)

lemma inv_bound: "inv n s \<Longrightarrow> n \<le> s_last + r_last"
  by (elim invE) (use s_bound r_bound add_mono in fastforce)

text \<open>Hence all runs end, after the same number of steps and with both ends in their last phase.\<close>

lemma run_ends:
  assumes "inv 0 s" and "(step ^^ n) s t"
  shows "n \<le> s_last + r_last" and "(\<exists>u. step t u) \<longleftrightarrow> n < s_last + r_last"
proof -
  have i: "inv n t" using run_inv [OF assms(2,1)] by simp
  show "n \<le> s_last + r_last" by (rule inv_bound [OF i])
  show "(\<exists>u. step t u) \<longleftrightarrow> n < s_last + r_last"
    using can_step [OF i] step_inv [OF i] inv_bound by (metis Suc_le_eq)
qed

lemma run_final:
  assumes "inv 0 s" and "(step ^^ (s_last + r_last)) s t"
  obtains sp rp where "s_at sp (x_snd t)" "s_rank sp = s_last" "r_at rp (x_rcv t)" "r_rank rp = r_last"
proof (rule invE)
  show "inv (s_last + r_last) t" using run_inv [OF assms(2,1)] by simp
next
  fix sp rp
  assume "s_at sp (x_snd t)" "r_at rp (x_rcv t)" "s_rank sp + r_rank rp = s_last + r_last"
  with s_bound [of sp "x_snd t"] r_bound [of rp "x_rcv t"] show thesis by (intro that [of sp rp]) auto
qed

end

text \<open>A run of any length, when every shorter run can go on.\<close>

lemma run_of_length:
  assumes "\<And>n s. (step ^^ n) x s \<Longrightarrow> n < m \<Longrightarrow> \<exists>t. step s t"
  shows "n \<le> m \<Longrightarrow> \<exists>s. (step ^^ n) x s"
proof (induction n)
  case (Suc n)
  then obtain s where s: "(step ^^ n) x s" by auto
  from assms [OF s] Suc.prems obtain t where "step s t" by auto
  with s show ?case by (auto intro: relpowp_Suc_I)
qed simp

end
