(* ===== verification/File_Transfer.thy ===== *)
theory File_Transfer
  imports Connected_Ends
begin

text \<open>
  The connected sender and receiver of \<open>Connected_Ends\<close> when the user accepts the offer. The handlers
  run in any order the pending operations and the bytes in flight allow; the sender may be any number
  of chunks ahead of the receiver. The phases of the two ends and the bytes each has written and
  read determine each other, which gives the end-to-end correctness of the protocol: no run gets
  stuck before the file has arrived.
\<close>

section \<open>Phases\<close>

datatype sphase = SConn | SHand | SReply | SChunk nat | SAck | SBody | SDone
datatype rphase = RConn | RHand | RHdr | RBody | RAsk | RAcc | RChunk nat | RData nat | RDone

text \<open>What is fixed for one transfer: the started sender, the content, the disk before and the path chosen.\<close>

record job =
  j_snd :: TransferSender
  j_content :: bytes
  j_disk :: disk
  j_path :: bytes

abbreviation nblocks :: "job \<Rightarrow> nat" where
  "nblocks j \<equiv> length (blocks CHUNK (j_content j))"

definition accept_message :: "job \<Rightarrow> bytes" where
  "accept_message j = frame TRANSFER_ACCEPT (ts_session_id (j_snd j)) []"

definition ack_message :: "job \<Rightarrow> bytes" where
  "ack_message j = frame TRANSFER_ACK (ts_session_id (j_snd j)) (serializeAck \<lparr>ap_checksum_ok = True\<rparr>)"

text \<open>The bytes written and read by each end up to a phase.\<close>

fun sent :: "job \<Rightarrow> sphase \<Rightarrow> bytes" where
  "sent j SConn = []"
| "sent j SHand = []"
| "sent j SReply = offer_message (j_snd j)"
| "sent j (SChunk k) = sent_chunks (j_snd j) (j_content j) (Suc k)"
| "sent j _ = honest_stream (j_snd j) (j_content j)"

fun got :: "job \<Rightarrow> sphase \<Rightarrow> bytes" where
  "got j (SChunk k) = accept_message j"
| "got j SAck = accept_message j"
| "got j SBody = accept_message j @ take 22 (ack_message j)"
| "got j SDone = accept_message j @ ack_message j"
| "got j _ = []"

fun taken :: "job \<Rightarrow> rphase \<Rightarrow> bytes" where
  "taken j RBody = take 22 (offer_message (j_snd j))"
| "taken j RAsk = offer_message (j_snd j)"
| "taken j RAcc = offer_message (j_snd j)"
| "taken j (RChunk k) = sent_chunks (j_snd j) (j_content j) k"
| "taken j (RData k) =
     sent_chunks (j_snd j) (j_content j) k @ take 22 (chunk_messages (j_snd j) (j_content j) ! k)"
| "taken j RDone = sent_chunks (j_snd j) (j_content j) (nblocks j) @ take 22 (done_message (j_snd j))"
| "taken j _ = []"

fun replied :: "job \<Rightarrow> rphase \<Rightarrow> bytes" where
  "replied j RAcc = accept_message j"
| "replied j (RChunk k) = accept_message j"
| "replied j (RData k) = accept_message j"
| "replied j RDone = accept_message j @ ack_message j"
| "replied j _ = []"

fun sender_at :: "job \<Rightarrow> sphase \<Rightarrow> TransferSender \<Rightarrow> sender_op list \<Rightarrow> sender_effect list \<Rightarrow> bool" where
  "sender_at j SConn st ops log \<longleftrightarrow> (\<exists>ip port. ops = [ConnectTo ip port])
     \<and> read_up_to (j_content j) 0 st \<and> reported (j_content j) 0 st log \<and> completions log = []"
| "sender_at j SHand st ops log \<longleftrightarrow> ops = [ClientHandshake]
     \<and> read_up_to (j_content j) 0 st \<and> reported (j_content j) 0 st log \<and> completions log = []"
| "sender_at j SReply st ops log \<longleftrightarrow> ops = [ReadReply]
     \<and> read_up_to (j_content j) 0 st \<and> reported (j_content j) 0 st log \<and> completions log = []"
| "sender_at j (SChunk k) st ops log \<longleftrightarrow> k < nblocks j
     \<and> ops = [WriteChunk (chunk_messages (j_snd j) (j_content j) ! k)]
     \<and> read_up_to (j_content j) (Suc k) st \<and> reported (j_content j) k st log \<and> completions log = []"
| "sender_at j SAck st ops log \<longleftrightarrow> ops = [ReadAck]
     \<and> reported (j_content j) (nblocks j) st log \<and> completions log = []"
| "sender_at j SBody st ops log \<longleftrightarrow> (\<exists>h. ops = [ReadAckBody h] \<and> payload_len h = 1)
     \<and> reported (j_content j) (nblocks j) st log \<and> completions log = []"
| "sender_at j SDone st ops log \<longleftrightarrow> ops = []
     \<and> reported (j_content j) (nblocks j) st log \<and> completions log = [(True, ts_file_path (j_snd j))]"

definition live_sender :: "job \<Rightarrow> TransferSender \<Rightarrow> bool" where
  "live_sender j st \<longleftrightarrow> sound_state (j_snd j) st \<and> ts_socket_open st"

fun rprogress_of :: "receiver_effect \<Rightarrow> (u64 \<times> u64) list" where
  "rprogress_of (RProgress x y) = [(x, y)]"
| "rprogress_of _ = []"

fun rcompletion_of :: "receiver_effect \<Rightarrow> (bool \<times> bytes) list" where
  "rcompletion_of (RComplete ok path) = [(ok, path)]"
| "rcompletion_of _ = []"

definition rprogress :: "receiver_effect list \<Rightarrow> (u64 \<times> u64) list" where
  "rprogress log = concat (map rprogress_of log)"

definition rcompletions :: "receiver_effect list \<Rightarrow> (bool \<times> bytes) list" where
  "rcompletions log = concat (map rcompletion_of log)"

text \<open>The receiver before the offer, with the offer, and with \<open>k\<close> blocks stored.\<close>

definition fresh_receiver :: "job \<Rightarrow> receiver_sys \<Rightarrow> bool" where
  "fresh_receiver j r \<longleftrightarrow> rs_disk r = j_disk j \<and> tr_file (rs_state r) = None
     \<and> tr_bytes_sent (rs_state r) = 0 \<and> rprogress (rs_log r) = [] \<and> rcompletions (rs_log r) = []"

definition knows_offer :: "job \<Rightarrow> receiver_sys \<Rightarrow> bool" where
  "knows_offer j r \<longleftrightarrow> tr_pending_offer (rs_state r) = Some (offer_of (j_snd j))
     \<and> tr_pending_session_id (rs_state r) = ts_session_id (j_snd j)
     \<and> tr_file_size (rs_state r) = of_nat (length (j_content j))"

definition stored :: "job \<Rightarrow> nat \<Rightarrow> receiver_sys \<Rightarrow> bool" where
  "stored j k r \<longleftrightarrow> rs_disk r = (j_disk j)(j_path j \<mapsto> take (k * CHUNK) (j_content j))
     \<and> tr_file (rs_state r) = Some (j_path j, True) \<and> tr_file_path (rs_state r) = j_path j
     \<and> tr_bytes_sent (rs_state r) = fst (progress_after (j_content j) k)
     \<and> rprogress (rs_log r) = map (progress_after (j_content j)) [1..<Suc k] \<and> rcompletions (rs_log r) = []"

fun receiver_at :: "job \<Rightarrow> rphase \<Rightarrow> receiver_sys \<Rightarrow> bool" where
  "receiver_at j RConn r \<longleftrightarrow> rs_ops r = [AcceptConnection] \<and> \<not> rs_asked r \<and> fresh_receiver j r"
| "receiver_at j RHand r \<longleftrightarrow> rs_ops r = [ServerHandshake] \<and> \<not> rs_asked r \<and> fresh_receiver j r
     \<and> tr_socket (rs_state r) = Some True"
| "receiver_at j RHdr r \<longleftrightarrow> rs_ops r = [ReadOfferHeader] \<and> \<not> rs_asked r \<and> fresh_receiver j r
     \<and> tr_socket (rs_state r) = Some True"
| "receiver_at j RBody r \<longleftrightarrow> (\<exists>h. rs_ops r = [ReadOfferBody h]
       \<and> payload_len h = of_nat (length (serializeOffer (offer_of (j_snd j)))))
     \<and> \<not> rs_asked r \<and> fresh_receiver j r \<and> tr_socket (rs_state r) = Some True
     \<and> tr_pending_session_id (rs_state r) = ts_session_id (j_snd j)"
| "receiver_at j RAsk r \<longleftrightarrow> rs_ops r = [] \<and> rs_asked r \<and> fresh_receiver j r
     \<and> tr_socket (rs_state r) = Some True \<and> knows_offer j r"
| "receiver_at j RAcc r \<longleftrightarrow> rs_ops r = [WriteAccept (accept_message j)] \<and> \<not> rs_asked r
     \<and> fresh_receiver j r \<and> tr_socket (rs_state r) = Some True \<and> knows_offer j r"
| "receiver_at j (RChunk k) r \<longleftrightarrow> k \<le> nblocks j \<and> rs_ops r = [ReadChunkHeader] \<and> \<not> rs_asked r
     \<and> stored j k r \<and> tr_socket (rs_state r) = Some True \<and> knows_offer j r"
| "receiver_at j (RData k) r \<longleftrightarrow> k < nblocks j
     \<and> rs_ops r = [ReadChunkBody (of_nat (length (blocks CHUNK (j_content j) ! k)))] \<and> \<not> rs_asked r
     \<and> stored j k r \<and> tr_socket (rs_state r) = Some True \<and> knows_offer j r"
| "receiver_at j RDone r \<longleftrightarrow> rs_ops r = [AcceptConnection] \<and> \<not> rs_asked r
     \<and> rs_disk r = (j_disk j)(j_path j \<mapsto> j_content j)
     \<and> rprogress (rs_log r) = map (progress_after (j_content j)) [1..<Suc (nblocks j)]
     \<and> rcompletions (rs_log r) = [(True, j_path j)]"

text \<open>When the two ends and the machine they run on let the transfer happen.\<close>

definition offer_job :: "(bytes \<Rightarrow> bytes) \<Rightarrow> sender_env \<Rightarrow> receiver_env \<Rightarrow> job \<Rightarrow> bool" where
  "offer_job sha senv renv j \<longleftrightarrow>
     ts_sha256 (j_snd j) = sha (j_content j) \<and> ts_file_size (j_snd j) = of_nat (length (j_content j))
     \<and> length (filename (ts_file_path (j_snd j))) + length (ts_device_name (j_snd j)) \<le> 32694
     \<and> se_write_ok senv
     \<and> (\<forall>valid. re_valid renv = Some valid \<longrightarrow> valid (ts_device_name (j_snd j)))"

definition good_job :: "(bytes \<Rightarrow> bytes) \<Rightarrow> sender_env \<Rightarrow> receiver_env \<Rightarrow> job \<Rightarrow> bool" where
  "good_job sha senv renv j \<longleftrightarrow> offer_job sha senv renv j \<and> re_write_ok renv \<and> CHUNK \<le> re_room renv
     \<and> resolveFilePath (path_exists renv (j_disk j)) (getDownloadsFolder (re_folder renv))
         (filename (ts_file_path (j_snd j))) = Inr (j_path j)
     \<and> j_path j \<noteq> [] \<and> re_create_ok renv (j_path j)"

lemma good_job_offer: "good_job sha senv renv j \<Longrightarrow> offer_job sha senv renv j"
  by (simp add: good_job_def)

section \<open>The sender's side\<close>

fun srank :: "job \<Rightarrow> sphase \<Rightarrow> nat" where
  "srank j SConn = 0"
| "srank j SHand = 1"
| "srank j SReply = 2"
| "srank j (SChunk k) = 3 + k"
| "srank j SAck = 3 + nblocks j"
| "srank j SBody = 4 + nblocks j"
| "srank j SDone = 5 + nblocks j"

lemma prefix_take: "prefix (xs @ data) (xs @ ys) \<Longrightarrow> data = take (length data) ys"
  by (metis append_eq_conv_conj prefixE same_prefix_prefix)

lemma sendNextChunk_total:
  assumes "read_up_to c k st" and "ts_file st \<noteq> None" and "k \<le> length (blocks CHUNK c)"
    and "length (ts_buffer st) = MAX_BUFFER_SIZE" and "se_write_ok env" and "ts_socket_open st"
  shows "\<exists>st' fx. sendNextChunk env st = Inr (st', fx)"
proof -
  obtain bs st1 where nb: "next_block st = (bs, st1)" by fastforce
  have "ts_socket_open st1" using next_block_at(4) [OF assms(1-4) nb] assms(6) by (simp add: keeps_def)
  then show ?thesis using assms(5) by (simp add: sendNextChunk_def nb sync_write_def)
qed

lemma live_keeps: "live_sender j st \<Longrightarrow> keeps st st' \<Longrightarrow> live_sender j st'"
  unfolding live_sender_def by (metis sound_keeps keeps_def)

lemma chunk_advances:
  assumes "live_sender j st" and "se_write_ok senv" and "k \<le> nblocks j"
    and "read_up_to (j_content j) k st" and "reported (j_content j) k st log" and "completions log = []"
  shows "\<exists>st' fx. sendNextChunk senv st = Inr (st', fx) \<and> live_sender j st'
    \<and> sender_at j (if k < nblocks j then SChunk k else SAck) st' (concat (map started_by fx)) (log @ fx)
    \<and> sent_chunks (j_snd j) (j_content j) k @ wire fx = sent j (if k < nblocks j then SChunk k else SAck)"
proof -
  have s: "same_job (j_snd j) st" "length (ts_buffer st) = MAX_BUFFER_SIZE"
    "ts_file st = None \<longrightarrow> \<not> ts_socket_open st" "ts_socket_open st"
    using assms(1) by (auto simp: live_sender_def sound_state_def)
  then obtain st' fx where r: "sendNextChunk senv st = Inr (st', fx)"
    using sendNextChunk_total [OF assms(4) _ assms(3) s(2) assms(2)] by auto
  note c = sendNextChunk_cases [OF assms(4) s(3) assms(3) s(2) r] and m = same_job_messages [OF s(1)]
  have live: "live_sender j st'" by (rule live_keeps [OF assms(1) c(1)])
  have rep: "reported (j_content j) k st' log" using assms(5) reported_keeps [OF c(1)] by simp
  show ?thesis
  proof (cases "k < nblocks j")
    case True
    with c(2) have "read_up_to (j_content j) (Suc k) st'"
      "fx = [SStart (WriteChunk (chunk_messages (j_snd j) (j_content j) ! k))]" using m by auto
    with True r live rep assms(6) show ?thesis by (simp add: sent_chunks_Suc reported_def)
  next
    case False
    with c(2) have "k = nblocks j" "fx = [SWrite (done_message (j_snd j)), SStart ReadAck]" using m by auto
    with r live rep assms(6) show ?thesis by (simp add: sent_chunks_all reported_def)
  qed
qed

lemma live_store_read:
  assumes "live_sender j st" and "length data \<le> MAX_BUFFER_SIZE"
  shows "live_sender j (store_read data st)"
  by (rule live_keeps [OF assms(1)], rule keeps_store_read)
    (use assms in \<open>simp add: live_sender_def sound_state_def\<close>)

lemma sender_at_store_read:
  "sender_at j sp (store_read data st) ops log \<longleftrightarrow> sender_at j sp st ops log"
proof -
  have "reported c k (store_read data st) log \<longleftrightarrow> reported c k st log" for c k
    by (simp add: reported_def store_read_def)
  then show ?thesis by (cases sp) simp_all
qed

lemma length_messages [simp]:
  "length (accept_message j) = 22" "length (ack_message j) = 23"
  by (simp_all add: accept_message_def ack_message_def serializeAck_def)

lemma messages_nonempty [simp]:
  "accept_message j \<noteq> []" "ack_message j \<noteq> []" "[] \<noteq> accept_message j"
  using length_messages [of j] by (metis list.size(3) zero_neq_numeral)+

definition s_advance ::
  "sender_env \<Rightarrow> job \<Rightarrow> sphase \<Rightarrow> TransferSender \<Rightarrow> sender_effect list \<Rightarrow> sender_op \<Rightarrow> bytes \<Rightarrow> bool" where
  "s_advance senv j sp st log op data \<longleftrightarrow>
     (\<exists>st' fx sp'. sender_handler senv st op None data = Inr (st', fx) \<and> live_sender j st'
        \<and> sender_at j sp' st' (concat (map started_by fx)) (log @ fx)
        \<and> sent j sp' = sent j sp @ wire fx \<and> got j sp' = got j sp @ data
        \<and> srank j sp' = Suc (srank j sp))"

lemma s_advanceI:
  assumes "sender_handler senv st op None data = Inr (st', fx)" and "live_sender j st'"
    and "sender_at j sp' st' (concat (map started_by fx)) (log @ fx)"
    and "sent j sp' = sent j sp @ wire fx" and "got j sp' = got j sp @ data"
    and "srank j sp' = Suc (srank j sp)"
  shows "s_advance senv j sp st log op data"
  using assms unfolding s_advance_def by blast

lemma sender_reply_advances:
  assumes "good_job sha senv renv j" and "live_sender j st" and "sender_at j SReply st ops log"
  shows "s_advance senv j SReply st log ReadReply (accept_message j)"
proof -
  let ?st = "store_read (accept_message j) st"
  let ?h = "buildHeader TRANSFER_ACCEPT (ts_session_id (j_snd j)) 0"
  have live: "live_sender j ?st" by (rule live_store_read [OF assms(2)]) simp
  have w: "se_write_ok senv" using assms(1) by (simp add: good_job_def offer_job_def)
  have at: "read_up_to (j_content j) 0 ?st" "reported (j_content j) 0 ?st log" "completions log = []"
    using assms(3) sender_at_store_read [of j SReply "accept_message j" st ops log] by auto
  obtain st' fx where r: "sendNextChunk senv ?st = Inr (st', fx)" "live_sender j st'"
    "sender_at j (if 0 < nblocks j then SChunk 0 else SAck) st' (concat (map started_by fx)) (log @ fx)"
    "sent_chunks (j_snd j) (j_content j) 0 @ wire fx = sent j (if 0 < nblocks j then SChunk 0 else SAck)"
    using chunk_advances [OF live w _ at] by blast
  have "deserializeHeader (ts_buffer ?st) None = Inr (True, Some (?h\<lparr>header_crc := crc_of ?h\<rparr>))"
    using deserializeHeader_frame [of TRANSFER_ACCEPT "ts_session_id (j_snd j)" "[]"]
    by (simp add: store_read_def overwrite_0 accept_message_def)
  then have "sender_handler senv st ReadReply None (accept_message j) = Inr (st', fx)"
    using r(1) by (simp add: sender_handler_def on_reply_def)
  then show ?thesis
    by (rule s_advanceI [OF _ r(2,3)]) (use r(4) in \<open>auto simp: sent_chunks_def\<close>)
qed

lemma chunk_written_bytes:
  assumes "k < length (blocks CHUNK c)"
  shows "of_nat (min (k * CHUNK) (length c)) + (of_nat (length (chunk_messages st c ! k)) - of_nat HEADER_SIZE)
    = (of_nat (min (Suc k * CHUNK) (length c)) :: u64)"
proof -
  have k: "k * CHUNK < length c" using assms less_length_blocks [of CHUNK k c] by simp
  let ?d = "min CHUNK (length c - k * CHUNK)"
  have "length (chunk_messages st c ! k) = HEADER_SIZE + ?d"
    and "min (Suc k * CHUNK) (length c) = k * CHUNK + ?d" and "min (k * CHUNK) (length c) = k * CHUNK"
    using assms k by (auto simp: chunk_messages_def nth_blocks)
  then show ?thesis unfolding of_nat_add by simp
qed

lemma sender_chunk_advances:
  assumes "good_job sha senv renv j" and "live_sender j st" and "sender_at j (SChunk k) st ops log"
  shows "s_advance senv j (SChunk k) st log (WriteChunk (chunk_messages (j_snd j) (j_content j) ! k)) []"
proof -
  let ?m = "chunk_messages (j_snd j) (j_content j) ! k" and ?c = "j_content j"
  let ?st = "(store_read [] st)\<lparr>ts_bytes_sent := ts_bytes_sent st + (of_nat (length ?m) - of_nat HEADER_SIZE)\<rparr>"
  let ?p = "SProgress (ts_bytes_sent ?st) (ts_file_size ?st)"
  have k: "k < nblocks j" "read_up_to ?c (Suc k) st" "reported ?c k st log" "completions log = []"
    using assms(3) by auto
  have w: "se_write_ok senv" using assms(1) by (simp add: good_job_def offer_job_def)
  have live: "live_sender j ?st"
    using live_store_read [OF assms(2), of "[]"]
    by (auto simp: live_sender_def sound_state_def same_job_def store_read_def)
  have b: "ts_bytes_sent ?st = fst (progress_after ?c (Suc k))"
    using k(3) chunk_written_bytes [OF k(1), of "j_snd j"] by (simp add: reported_def progress_after_def)
  have size: "ts_file_size ?st = of_nat (length ?c)"
    using assms(1,2) by (simp add: good_job_def offer_job_def live_sender_def sound_state_def same_job_def store_read_def)
  have rep: "reported ?c (Suc k) ?st (log @ [?p])"
    using k(3) b size by (simp add: reported_def progress_after_def)
  have rd: "read_up_to ?c (Suc k) ?st" using k(2) by (simp add: read_up_to_def store_read_def)
  obtain st' fx where r: "sendNextChunk senv ?st = Inr (st', fx)" "live_sender j st'"
    "sender_at j (if Suc k < nblocks j then SChunk (Suc k) else SAck) st' (concat (map started_by fx)) ((log @ [?p]) @ fx)"
    "sent_chunks (j_snd j) ?c (Suc k) @ wire fx = sent j (if Suc k < nblocks j then SChunk (Suc k) else SAck)"
    using chunk_advances [OF live w _ rd rep] k by auto
  have "sender_handler senv st (WriteChunk ?m) None [] = Inr (st', ?p # fx)"
    using r(1) by (simp add: sender_handler_def on_chunk_written_def store_read_def)
  then show ?thesis
    by (rule s_advanceI [where sp' = "if Suc k < nblocks j then SChunk (Suc k) else SAck", OF _ r(2)])
      (use r k in auto)
qed

lemma sender_connect_advances:
  assumes "live_sender j st" and "sender_at j SConn st [op] log"
  shows "s_advance senv j SConn st log op []"
proof -
  have "sender_handler senv st op None [] = Inr (store_read [] st, [SStart ClientHandshake])"
    using assms(2) by (auto simp: sender_handler_def on_connect_def)
  then show ?thesis
    by (rule s_advanceI [where sp' = SHand, OF _ live_store_read [OF assms(1)]])
      (use assms(2) sender_at_store_read [of j SConn "[]" st "[op]" log] in \<open>auto simp: reported_def\<close>)
qed

lemma sender_handshake_advances:
  assumes "offer_job sha senv renv j" and "live_sender j st" and "sender_at j SHand st [op] log"
  shows "s_advance senv j SHand st log op []"
proof -
  let ?st = "store_read [] st"
  have live: "live_sender j ?st" by (rule live_store_read [OF assms(2)]) simp
  then have "same_job (j_snd j) ?st" "ts_socket_open ?st" by (simp_all add: live_sender_def sound_state_def)
  then have "sender_handler senv st op None []
      = Inr (?st, [SWrite (offer_message (j_snd j)), SStart ReadReply])"
    using assms(1,3) same_job_messages(1) [of "j_snd j" ?st]
    by (simp add: sender_handler_def on_handshake_def sendOffer_def sync_write_def good_job_def offer_job_def
        offer_message_def offer_of_def)
  then show ?thesis
    by (rule s_advanceI [where sp' = SReply, OF _ live])
      (use assms(3) sender_at_store_read [of j SHand "[]" st "[op]" log] in \<open>auto simp: reported_def\<close>)
qed

lemma sender_ack_advances:
  assumes "live_sender j st" and "sender_at j SAck st [op] log"
  shows "s_advance senv j SAck st log op (take 22 (ack_message j))"
proof -
  let ?st = "store_read (take 22 (ack_message j)) st"
  let ?h = "buildHeader TRANSFER_ACK (ts_session_id (j_snd j)) 1"
  have live: "live_sender j ?st" by (rule live_store_read [OF assms(1)]) simp
  have "take 22 (ack_message j) = serializeHeader ?h"
    using take_frame [of TRANSFER_ACK _ _ "[]"] by (simp add: ack_message_def serializeAck_def)
  then have "deserializeHeader (ts_buffer ?st) None = Inr (True, Some (?h\<lparr>header_crc := crc_of ?h\<rparr>))"
    by (simp add: store_read_def overwrite_0 deserializeHeader_serializeHeader wf_header_def)
  then have "sender_handler senv st op None (take 22 (ack_message j))
      = Inr (?st, [SStart (ReadAckBody (?h\<lparr>header_crc := crc_of ?h\<rparr>))])"
    using assms(2) by (simp add: sender_handler_def on_ack_def)
  then show ?thesis
    by (rule s_advanceI [where sp' = SBody, OF _ live])
      (use assms(2) sender_at_store_read [of j SAck "take 22 (ack_message j)" st "[op]" log]
        in \<open>auto simp: reported_def\<close>)
qed

lemma sender_body_advances:
  assumes "live_sender j st" and "sender_at j SBody st [op] log"
  shows "s_advance senv j SBody st log op (drop 22 (ack_message j))"
proof -
  let ?d = "drop 22 (ack_message j)"
  let ?st = "store_read ?d st"
  have d: "?d = [1]" using drop_frame [of TRANSFER_ACK _ _ "[]"] by (simp add: ack_message_def serializeAck_def)
  have live: "live_sender j ?st" by (rule live_store_read [OF assms(1)]) simp
  then have path: "ts_file_path ?st = ts_file_path (j_snd j)"
    by (simp add: live_sender_def sound_state_def same_job_def)
  obtain h where h: "op = ReadAckBody h" "payload_len h = 1" using assms(2) by auto
  have "sender_handler senv st op None ?d = Inr (?st, [SComplete True (ts_file_path (j_snd j))])"
    using path unfolding h(1) d
    by (simp add: sender_handler_def on_ack_body_def h(2) deserializeAck_def store_read_def overwrite_0)
  then show ?thesis
    by (rule s_advanceI [where sp' = SDone, OF _ live])
      (use assms(2) sender_at_store_read [of j SBody ?d st "[op]" log] in \<open>auto simp: reported_def\<close>)
qed

text \<open>At every phase the operation outstanding completes and the sender moves on.\<close>

lemma sender_advances:
  assumes "good_job sha senv renv j" and "live_sender j st" and "sender_at j sp st [op] log"
    and "length data = sender_reads op" and "prefix (got j sp @ data) (accept_message j @ ack_message j)"
  shows "s_advance senv j sp st log op data"
proof (cases sp)
  case SConn
  then have "data = []" using assms(3,4) by auto
  then show ?thesis using sender_connect_advances [OF assms(2)] assms(3) SConn by simp
next
  case SHand
  then have "data = []" using assms(3,4) by auto
  then show ?thesis using sender_handshake_advances [OF good_job_offer [OF assms(1)] assms(2)] assms(3) SHand by simp
next
  case SReply
  then have "op = ReadReply" "data = accept_message j"
    using assms(3-5) prefix_take [of "[]" data "accept_message j @ ack_message j"] by auto
  then show ?thesis using sender_reply_advances [OF assms(1,2)] assms(3) SReply by simp
next
  case (SChunk k)
  then have "op = WriteChunk (chunk_messages (j_snd j) (j_content j) ! k)" "data = []"
    using assms(3,4) by auto
  then show ?thesis using sender_chunk_advances [OF assms(1,2)] assms(3) SChunk by simp
next
  case SAck
  then have "data = take 22 (ack_message j)"
    using assms(3-5) prefix_take [of "accept_message j" data "ack_message j"] by auto
  then show ?thesis using sender_ack_advances [OF assms(2)] assms(3) SAck by simp
next
  case SBody
  then have "length data = 1"
    using assms(3,4) by auto
  moreover have "prefix ((accept_message j @ take 22 (ack_message j)) @ data)
      ((accept_message j @ take 22 (ack_message j)) @ drop 22 (ack_message j))"
    using assms(5) SBody by simp
  ultimately have "data = drop 22 (ack_message j)"
    using prefix_take [of "accept_message j @ take 22 (ack_message j)" data "drop 22 (ack_message j)"] by simp
  then show ?thesis using sender_body_advances [OF assms(2)] assms(3) SBody by simp
qed (use assms(3) in simp)

section \<open>The receiver's side\<close>

fun rrank :: "job \<Rightarrow> rphase \<Rightarrow> nat" where
  "rrank j RConn = 0"
| "rrank j RHand = 1"
| "rrank j RHdr = 2"
| "rrank j RBody = 3"
| "rrank j RAsk = 4"
| "rrank j RAcc = 5"
| "rrank j (RChunk k) = 6 + 2 * k"
| "rrank j (RData k) = 7 + 2 * k"
| "rrank j RDone = 7 + 2 * nblocks j"

lemma rlog_append [simp]:
  "rwire (xs @ ys) = rwire xs @ rwire ys" "rprogress (xs @ ys) = rprogress xs @ rprogress ys"
  "rcompletions (xs @ ys) = rcompletions xs @ rcompletions ys"
  by (simp_all add: rwire_def rprogress_def rcompletions_def)

lemma rlog_Nil [simp]: "rwire [] = []" "rprogress [] = []" "rcompletions [] = []"
  by (simp_all add: rwire_def rprogress_def rcompletions_def)

lemma rlog_Cons [simp]:
  "rwire (x # ys) = rwire_of x @ rwire ys" "rprogress (x # ys) = rprogress_of x @ rprogress ys"
  "rcompletions (x # ys) = rcompletion_of x @ rcompletions ys"
  by (simp_all add: rwire_def rprogress_def rcompletions_def)

definition r_advance ::
  "'ctx evp \<Rightarrow> receiver_env \<Rightarrow> job \<Rightarrow> rphase \<Rightarrow> receiver_sys \<Rightarrow> receiver_op \<Rightarrow> bytes \<Rightarrow> bool" where
  "r_advance evp renv j rp r op data \<longleftrightarrow>
     (\<exists>st disk fx rp'. receiver_handler evp renv (rs_state r) (rs_disk r) op None data = Inr (st, disk, fx)
        \<and> length (tr_buffer st) = MAX_BUFFER_SIZE
        \<and> receiver_at j rp' (rperform fx (r\<lparr>rs_state := st, rs_disk := disk, rs_ops := []\<rparr>))
        \<and> taken j rp' = taken j rp @ data \<and> replied j rp' = replied j rp @ rwire fx
        \<and> rrank j rp' = Suc (rrank j rp))"

lemma r_advanceI:
  assumes "receiver_handler evp renv (rs_state r) (rs_disk r) op None data = Inr (st, disk, fx)"
    and "length (tr_buffer st) = MAX_BUFFER_SIZE"
    and "receiver_at j rp' (rperform fx (r\<lparr>rs_state := st, rs_disk := disk, rs_ops := []\<rparr>))"
    and "taken j rp' = taken j rp @ data" and "replied j rp' = replied j rp @ rwire fx"
    and "rrank j rp' = Suc (rrank j rp)"
  shows "r_advance evp renv j rp r op data"
  using assms unfolding r_advance_def by blast

lemma good_offer:
  assumes "offer_job sha senv renv j" and "\<And>m. length (sha m) = 32"
  shows "wf_offer (offer_of (j_snd j))" and "length (serializeOffer (offer_of (j_snd j))) \<le> CHUNK"
  using assms by (simp_all add: good_job_def offer_job_def wf_offer_def offer_of_def serializeOffer_def)

lemma receiver_connect_advances:
  assumes "length (tr_buffer (rs_state r)) = MAX_BUFFER_SIZE" and "receiver_at j RConn r"
  shows "r_advance evp renv j RConn r AcceptConnection []"
  by (rule r_advanceI [OF connection_accepted, where rp' = RHand])
    (use assms in \<open>simp_all add: rperform_def fresh_receiver_def\<close>)

lemma receiver_handshake_advances:
  assumes "length (tr_buffer (rs_state r)) = MAX_BUFFER_SIZE" and "receiver_at j RHand r"
  shows "r_advance evp renv j RHand r ServerHandshake []"
  by (rule r_advanceI [OF handshake_completed, where rp' = RHdr])
    (use assms in \<open>simp_all add: rperform_def fresh_receiver_def\<close>)

lemma receiver_header_advances:
  assumes "length (tr_buffer (rs_state r)) = MAX_BUFFER_SIZE" and "receiver_at j RHdr r"
    and "length (serializeOffer (offer_of (j_snd j))) \<le> CHUNK"
  shows "r_advance evp renv j RHdr r ReadOfferHeader (take 22 (offer_message (j_snd j)))"
  unfolding offer_message_def
  by (rule r_advanceI [OF offer_header_read [OF assms(1,3)], where rp' = RBody])
    (use assms in \<open>simp_all add: rperform_def fresh_receiver_def offer_message_def\<close>)

lemma receiver_offer_advances:
  assumes "offer_job sha senv renv j" and "\<And>m. length (sha m) = 32"
    and "length (tr_buffer (rs_state r)) = MAX_BUFFER_SIZE" and "receiver_at j RBody r" and "rs_ops r = [op]"
  shows "r_advance evp renv j RBody r op (serializeOffer (offer_of (j_snd j)))"
proof -
  let ?o = "offer_of (j_snd j)"
  note o = good_offer [OF assms(1,2)]
  obtain h where h: "op = ReadOfferBody h" "payload_len h = of_nat (length (serializeOffer ?o))"
    using assms(4,5) by auto
  have "\<forall>valid. re_valid renv = Some valid \<longrightarrow> valid (op_device_name ?o)"
    using assms(1) by (auto simp: good_job_def offer_job_def offer_of_def)
  note offer_body_read [OF assms(3) o(1,2) h(2) this]
  then show ?thesis unfolding h(1)
  proof (rule r_advanceI [where rp' = RAsk])
    have "offer_message (j_snd j) = take 22 (offer_message (j_snd j)) @ serializeOffer ?o"
      unfolding offer_message_def by (rule frame_split)
    then show "taken j RAsk = taken j RBody @ serializeOffer ?o" by simp
  qed (use assms(1,3,4) o(2) in \<open>simp_all add: rperform_def fresh_receiver_def knows_offer_def
      offer_of_def good_job_def offer_job_def\<close>)
qed

lemma receiver_open_advances:
  assumes "good_job sha senv renv j"
    and "length (tr_buffer (rs_state r)) = MAX_BUFFER_SIZE" and "receiver_at j RAcc r"
  shows "r_advance evp renv j RAcc r (WriteAccept (accept_message j)) []"
proof -
  let ?p = "j_path j"
  let ?st = "(rs_state r)\<lparr>tr_file_path := ?p, tr_file := Some (?p, True)\<rparr>"
  have at: "rs_disk r = j_disk j" "tr_file (rs_state r) = None"
    "tr_pending_offer (rs_state r) = Some (offer_of (j_snd j))"
    using assms(3) by (simp_all add: fresh_receiver_def knows_offer_def)
  have "resolveFilePath (path_exists renv (j_disk j)) (getDownloadsFolder (re_folder renv))
      (op_file_name (offer_of (j_snd j))) = Inr ?p" and "?p \<noteq> []" and "re_create_ok renv ?p"
    using assms(1) by (simp_all add: good_job_def offer_job_def offer_of_def)
  then have "receiver_handler evp renv (rs_state r) (rs_disk r) (WriteAccept (accept_message j)) None []
      = Inr (?st, (rs_disk r)(?p \<mapsto> []), [RStart ReadChunkHeader])"
    using assms(2) at by (simp add: receiver_handler_def receive_none on_accept_sent_def open_out_def receiveNextChunk_def)
  then show ?thesis
    by (rule r_advanceI [where rp' = "RChunk 0"])
      (use assms(2,3) in \<open>simp_all add: rperform_def fresh_receiver_def knows_offer_def stored_def
        progress_after_def sent_chunks_def\<close>)
qed

lemma receiver_chunk_advances:
  assumes "length (tr_buffer (rs_state r)) = MAX_BUFFER_SIZE" and "receiver_at j (RChunk k) r" and "k < nblocks j"
  shows "r_advance evp renv j (RChunk k) r ReadChunkHeader (take 22 (chunk_messages (j_snd j) (j_content j) ! k))"
proof -
  let ?m = "chunk_messages (j_snd j) (j_content j) ! k" and ?bl = "blocks CHUNK (j_content j) ! k"
  let ?st = "(rs_state r)\<lparr>tr_buffer := overwrite 0 (take 22 ?m) (tr_buffer (rs_state r))\<rparr>"
  have m: "?m = frame DATA_CHUNK (ts_session_id (j_snd j)) ?bl" using assms(3) by (simp add: chunk_messages_def)
  have "receiver_handler evp renv (rs_state r) (rs_disk r) ReadChunkHeader None (take 22 ?m)
      = Inr (?st, rs_disk r, [RStart (ReadChunkBody (of_nat (length ?bl)))])"
    using assms(1) header_of_frame [OF assms(1), of DATA_CHUNK "ts_session_id (j_snd j)" ?bl]
    by (simp add: receiver_handler_def receive_header on_chunk_header_def m)
  then show ?thesis
    by (rule r_advanceI [where rp' = "RData k"])
      (use assms in \<open>simp_all add: rperform_def stored_def knows_offer_def m\<close>)
qed

lemma receiver_data_advances:
  assumes "good_job sha senv renv j"
    and "length (tr_buffer (rs_state r)) = MAX_BUFFER_SIZE" and "receiver_at j (RData k) r" and "rs_ops r = [op]"
  shows "r_advance evp renv j (RData k) r op (blocks CHUNK (j_content j) ! k)"
proof -
  let ?bl = "blocks CHUNK (j_content j) ! k" and ?b = "tr_buffer (rs_state r)" and ?p = "j_path j" and ?c = "j_content j"
  let ?now = "take (Suc k * CHUNK) ?c"
  let ?n = "tr_bytes_sent (rs_state r) + of_nat (length ?bl)"
  let ?st = "(rs_state r)\<lparr>tr_buffer := overwrite 22 ?bl ?b, tr_file := Some (?p, True), tr_bytes_sent := ?n\<rparr>"
  have k: "k < nblocks j" and op: "op = ReadChunkBody (of_nat (length ?bl))" and s: "stored j k r"
    using assms(3,4) by simp_all
  have bl: "?bl = take CHUNK (drop (k * CHUNK) ?c)" by (rule nth_blocks [OF k])
  have small: "length ?bl \<le> CHUNK" by (simp add: bl)
  have room: "length ?bl \<le> re_room renv" using assms(1) small by (auto simp: good_job_def offer_job_def)
  have sofar: "take (k * CHUNK) ?c @ ?bl = ?now"
    by (simp only: bl mult_Suc add.commute [of CHUNK] take_add)
  have data: "take (length ?bl) (drop 22 (overwrite 22 ?bl ?b)) = ?bl"
    using assms(2) by (simp add: drop_overwrite)
  have n: "?n = fst (progress_after ?c (Suc k))"
    using s chunk_written_bytes [OF k, of "j_snd j"] k by (simp add: stored_def progress_after_def chunk_messages_def)
  have size: "tr_file_size (rs_state r) = of_nat (length ?c)" using assms(3) by (simp add: knows_offer_def)
  have "receiver_handler evp renv (rs_state r) (rs_disk r) op None ?bl
      = Inr (?st, (j_disk j)(?p \<mapsto> ?now), [RProgress ?n (tr_file_size (rs_state r)), RStart ReadChunkHeader])"
    using assms(2) s room sofar small
    by (simp add: receiver_handler_def op receive_body on_chunk_body_def data write_out_def
        stored_def receiveNextChunk_def del: mult_Suc)
  then show ?thesis
  proof (rule r_advanceI [where rp' = "RChunk (Suc k)"])
    have "chunk_messages (j_snd j) ?c ! k = take 22 (chunk_messages (j_snd j) ?c ! k) @ ?bl"
      unfolding chunk_messages_def nth_map [OF k] by (rule frame_split)
    then show "taken j (RChunk (Suc k)) = taken j (RData k) @ ?bl"
      using sent_chunks_Suc [OF k, of "j_snd j"] by simp
    show "receiver_at j (RChunk (Suc k)) (rperform [RProgress ?n (tr_file_size (rs_state r)), RStart ReadChunkHeader]
        (r\<lparr>rs_state := ?st, rs_disk := (j_disk j)(?p \<mapsto> ?now), rs_ops := []\<rparr>))"
      using assms(3) k n size by (simp add: rperform_def stored_def knows_offer_def progress_after_def)
  qed (use assms(2) small in simp_all)
qed

lemma receiver_done_advances:
  assumes "good_job sha senv renv j" and "evp_sha256 evp sha"
    and "length (tr_buffer (rs_state r)) = MAX_BUFFER_SIZE" and "receiver_at j (RChunk (nblocks j)) r"
  shows "r_advance evp renv j (RChunk (nblocks j)) r ReadChunkHeader (take 22 (done_message (j_snd j)))"
proof -
  let ?d = "take 22 (done_message (j_snd j))" and ?c = "j_content j" and ?p = "j_path j"
  let ?st = "(rs_state r)\<lparr>tr_buffer := overwrite 0 ?d (tr_buffer (rs_state r))\<rparr>"
  have all: "take (nblocks j * CHUNK) ?c = ?c" using length_blocks_mult [of CHUNK ?c] by simp
  have at: "rs_disk r ?p = Some ?c" "rs_disk r = (j_disk j)(?p \<mapsto> ?c)" "tr_file_path (rs_state r) = ?p"
    "tr_pending_offer (rs_state r) = Some (offer_of (j_snd j))" "tr_socket (rs_state r) = Some True"
    "tr_pending_session_id (rs_state r) = ts_session_id (j_snd j)"
    using assms(4) all by (simp_all add: stored_def knows_offer_def)
  obtain s f where sf: "file_digest evp (open_for_digest (rs_disk r) ?p) = (s, f)" by fastforce
  with open_for_digest_sha [of evp sha "rs_disk r" ?p ?c] assms(2) at(1) have s: "s = sha ?c" by simp
  have "op_sha256 (offer_of (j_snd j)) = sha ?c" and "re_write_ok renv"
    using assms(1) by (simp_all add: good_job_def offer_job_def offer_of_def)
  with at sf s have fin: "finish_transfer evp renv ?st (rs_disk r) =
      Inr (?st\<lparr>tr_file := None, tr_socket := Some False\<rparr>, rs_disk r,
           [RWrite (ack_message j), RComplete True ?p, RStart AcceptConnection])"
    by (simp add: finish_transfer_def listenForConnections_def ack_message_def)
  have "deserializeHeader (tr_buffer ?st) None = Inr (True, Some ((buildHeader TRANSFER_DONE (ts_session_id (j_snd j)) (of_nat (length (serializeDone \<lparr>pd_sha256 = ts_sha256 (j_snd j)\<rparr>))))
      \<lparr>header_crc := crc_of (buildHeader TRANSFER_DONE (ts_session_id (j_snd j)) (of_nat (length (serializeDone \<lparr>pd_sha256 = ts_sha256 (j_snd j)\<rparr>))))\<rparr>))"
    using header_of_frame [OF assms(3)] by (simp add: done_message_def)
  then have "receiver_handler evp renv (rs_state r) (rs_disk r) ReadChunkHeader None ?d =
      Inr (?st\<lparr>tr_file := None, tr_socket := Some False\<rparr>, rs_disk r,
           [RWrite (ack_message j), RComplete True ?p, RStart AcceptConnection])"
    using assms(3) fin
    by (simp add: receiver_handler_def receive_header done_message_def on_chunk_header_def MessageType_defs)
  then show ?thesis
    by (rule r_advanceI [where rp' = RDone])
      (use assms(3,4) at(2) in \<open>simp_all add: rperform_def stored_def done_message_def\<close>)
qed

lemma stream_after_chunks:
  assumes "k \<le> length (blocks CHUNK c)"
  shows "\<exists>rest. honest_stream st c = sent_chunks st c k
    @ (if k < length (blocks CHUNK c) then chunk_messages st c ! k else done_message st) @ rest"
proof (cases "k < length (blocks CHUNK c)")
  case True
  obtain rest where "honest_stream st c = sent_chunks st c (Suc k) @ rest"
    using prefix_sent_chunks [of st c "Suc k"] by (auto elim: prefixE)
  with True sent_chunks_Suc [OF True, of st] show ?thesis by (metis append.assoc)
next
  case False
  with assms have "honest_stream st c = sent_chunks st c k @ done_message st @ []"
    using sent_chunks_all [of st c] by simp
  with False show ?thesis by metis
qed

lemma next_bytes:
  assumes "prefix (xs @ data) (xs @ m @ rest)" and "length data \<le> length m"
  shows "data = take (length data) m"
  using prefix_take [OF assms(1)] assms(2) by simp

lemma length_done_chunk_messages [simp]:
  "length (done_message st) = 54"
  "k < length (blocks CHUNK c) \<Longrightarrow> length (chunk_messages st c ! k) = 22 + length (blocks CHUNK c ! k)"
  by (simp_all add: done_message_def serializeDone_def chunk_messages_def)

text \<open>The next bytes of the honest stream are those that the receiver waits for.\<close>

lemma honest_offer:
  "honest_stream st c = offer_message st @ concat (chunk_messages st c) @ done_message st"
  by (simp add: honest_stream_def)

lemma next_offer_header:
  assumes "prefix data (honest_stream st c)" and "length data = 22"
  shows "data = take 22 (offer_message st)"
  using next_bytes [of "[]" data "offer_message st" "concat (chunk_messages st c) @ done_message st"] assms
  by (simp add: honest_offer offer_message_def)

lemma next_offer_body:
  assumes "prefix (take 22 (offer_message st) @ data) (honest_stream st c)"
    and "length data = length (serializeOffer (offer_of st))"
  shows "data = serializeOffer (offer_of st)"
proof -
  let ?o = "offer_message st"
  have d: "drop 22 ?o = serializeOffer (offer_of st)"
    using drop_frame [of _ _ _ "[]"] by (simp add: offer_message_def)
  have "honest_stream st c = take 22 ?o @ drop 22 ?o @ concat (chunk_messages st c) @ done_message st"
    unfolding honest_offer by (subst append_take_drop_id [of 22 ?o, symmetric]) (simp only: append.assoc)
  then show ?thesis
    using next_bytes [of "take 22 ?o" data "drop 22 ?o"] assms d by simp
qed

lemma next_chunk_header:
  assumes "prefix (sent_chunks st c k @ data) (honest_stream st c)" and "length data = 22"
    and "k \<le> length (blocks CHUNK c)"
  shows "data = take 22 (if k < length (blocks CHUNK c) then chunk_messages st c ! k else done_message st)"
proof -
  obtain rest where "honest_stream st c = sent_chunks st c k
      @ (if k < length (blocks CHUNK c) then chunk_messages st c ! k else done_message st) @ rest"
    using stream_after_chunks [OF assms(3)] by blast
  then show ?thesis using next_bytes [of "sent_chunks st c k" data] assms by simp
qed

lemma next_chunk_body:
  assumes "prefix (sent_chunks st c k @ take 22 (chunk_messages st c ! k) @ data) (honest_stream st c)"
    and "k < length (blocks CHUNK c)" and "length data = length (blocks CHUNK c ! k)"
  shows "data = blocks CHUNK c ! k"
proof -
  let ?m = "chunk_messages st c ! k"
  have d: "drop 22 ?m = blocks CHUNK c ! k"
    using assms(2) drop_frame [of _ _ _ "[]"] by (simp add: chunk_messages_def)
  obtain rest where "honest_stream st c = sent_chunks st c k @ ?m @ rest"
    using stream_after_chunks [of k c st] assms(2) by auto
  then have "honest_stream st c = (sent_chunks st c k @ take 22 ?m) @ drop 22 ?m @ rest"
    by (metis append.assoc append_take_drop_id)
  then show ?thesis
    using next_bytes [of "sent_chunks st c k @ take 22 ?m" data "drop 22 ?m"] assms d by simp
qed

text \<open>The lengths that the headers announce are the lengths of the payloads.\<close>

lemma announced_offer:
  "length (serializeOffer op) \<le> CHUNK \<Longrightarrow> unat (of_nat (length (serializeOffer op)) :: u32) = length (serializeOffer op)"
  by (rule unat_of_nat_32) simp

lemma announced_chunk:
  assumes "k < length (blocks CHUNK c)"
  shows "unat (of_nat (length (blocks CHUNK c ! k)) :: u32) = length (blocks CHUNK c ! k)"
  by (rule unat_of_nat_32) (use nth_blocks [OF assms] in simp)

text \<open>At every phase with an outstanding operation, the bytes of the honest stream move the receiver on.\<close>

lemma receiver_advances:
  assumes "good_job sha senv renv j" and "evp_sha256 evp sha"
    and "length (tr_buffer (rs_state r)) = MAX_BUFFER_SIZE" and "receiver_at j rp r" and "rs_ops r = [op]"
    and "rp \<noteq> RDone" and "length data = receiver_reads op"
    and "prefix (taken j rp @ data) (honest_stream (j_snd j) (j_content j))"
  shows "r_advance evp renv j rp r op data"
proof -
  have len32: "\<And>m. length (sha m) = 32" using length_sha [OF assms(2)] .
  note good = good_job_offer [OF assms(1)]
  note o = good_offer(2) [OF good len32]
  show ?thesis
  proof (cases rp)
    case RConn
    with assms show ?thesis using receiver_connect_advances [OF assms(3), of j evp renv] by simp
  next
    case RHand
    with assms show ?thesis using receiver_handshake_advances [OF assms(3), of j evp renv] by simp
  next
    case RHdr
    with assms(4,5,7) have op: "op = ReadOfferHeader" "length data = 22" by auto
    have "data = take 22 (offer_message (j_snd j))"
      by (rule next_offer_header [OF _ op(2)]) (use assms(8) RHdr in simp)
    with op(1) receiver_header_advances [OF assms(3) _ o] assms(4) RHdr show ?thesis by simp
  next
    case RBody
    with assms(4,5,7) have "length data = length (serializeOffer (offer_of (j_snd j)))"
      using announced_offer [OF o] by auto
    then have "data = serializeOffer (offer_of (j_snd j))"
      by (intro next_offer_body) (use assms(8) RBody in simp_all)
    with receiver_offer_advances [OF good len32 assms(3) assms(4) [unfolded RBody] assms(5), of evp] RBody
    show ?thesis by simp
  next
    case RAcc
    with assms show ?thesis using receiver_open_advances [OF assms(1,3)] by simp
  next
    case (RChunk k)
    then have k: "k \<le> nblocks j" "op = ReadChunkHeader" "length data = 22" using assms(4,5,7) by auto
    have "data = take 22 (if k < nblocks j then chunk_messages (j_snd j) (j_content j) ! k else done_message (j_snd j))"
      by (rule next_chunk_header [OF _ k(3,1)]) (use assms(8) RChunk in simp)
    with k receiver_chunk_advances [OF assms(3)] receiver_done_advances [OF assms(1-3)] assms(4) RChunk show ?thesis
      by (cases "k < nblocks j") auto
  next
    case (RData k)
    then have k: "k < nblocks j" "length data = length (blocks CHUNK (j_content j) ! k)"
      using assms(4,5,7) announced_chunk [of k "j_content j"] by auto
    then have "data = blocks CHUNK (j_content j) ! k"
      by (intro next_chunk_body) (use assms(8) RData in simp_all)
    with RData receiver_data_advances [OF assms(1,3) assms(4) [unfolded RData] assms(5), of evp] show ?thesis by simp
  qed (use assms(4-6) in simp_all)
qed

section \<open>The two sides together\<close>

definition sending ::
  "'ctx evp \<Rightarrow> (bytes \<Rightarrow> bytes) \<Rightarrow> sender_env \<Rightarrow> receiver_env \<Rightarrow> job \<Rightarrow> sphase \<Rightarrow> sender_sys \<Rightarrow> bool" where
  "sending evp sha senv renv j sp x \<longleftrightarrow> good_job sha senv renv j \<and> evp_sha256 evp sha
     \<and> live_sender j (ss_state x) \<and> sender_at j sp (ss_state x) (ss_ops x) (ss_log x)"

definition receiving ::
  "'ctx evp \<Rightarrow> (bytes \<Rightarrow> bytes) \<Rightarrow> sender_env \<Rightarrow> receiver_env \<Rightarrow> job \<Rightarrow> rphase \<Rightarrow> receiver_sys \<Rightarrow> bool" where
  "receiving evp sha senv renv j rp r \<longleftrightarrow> good_job sha senv renv j \<and> evp_sha256 evp sha
     \<and> length (tr_buffer (rs_state r)) = MAX_BUFFER_SIZE \<and> receiver_at j rp r"

lemma prefix_sent: "prefix (sent j sp) (honest_stream (j_snd j) (j_content j))"
  by (cases sp) (simp_all add: prefix_sent_chunks, simp add: honest_stream_def)

lemma prefix_replied: "prefix (replied j rp) (accept_message j @ ack_message j)"
  by (cases rp) simp_all

lemma sender_at_op: "sender_at j sp st ops log \<Longrightarrow> op \<in> set ops \<Longrightarrow> ops = [op]"
  by (cases sp) auto

lemma receiver_at_op: "receiver_at j rp r \<Longrightarrow> op \<in> set (rs_ops r) \<Longrightarrow> rs_ops r = [op]"
  by (cases rp) auto

lemma receiver_at_waits:
  "receiver_at j rp r \<Longrightarrow> rs_ops r = [AcceptConnection] \<longleftrightarrow> rrank j rp = 0 \<or> rrank j rp = 7 + 2 * nblocks j"
  by (cases rp) auto

lemma rank_bounds:
  "sender_at j sp st ops log \<Longrightarrow> srank j sp \<le> 5 + nblocks j"
  "receiver_at j rp r \<Longrightarrow> rrank j rp \<le> 7 + 2 * nblocks j"
  by (cases sp; simp) (cases rp; simp)

lemma sending_final:
  "sending evp sha senv renv j sp x \<Longrightarrow> srank j sp = 5 + nblocks j \<Longrightarrow>
    sender_at j SDone (ss_state x) (ss_ops x) (ss_log x)"
  by (cases sp) (auto simp: sending_def)

lemma receiving_final:
  "receiving evp sha senv renv j rp r \<Longrightarrow> rrank j rp = 7 + 2 * nblocks j \<Longrightarrow> receiver_at j RDone r"
  by (cases rp) (auto simp: receiving_def)

lemma sending_moves:
  assumes "sending evp sha senv renv j sp x" and "ss_ops x = [op]" and "length data = sender_reads op"
    and "prefix (got j sp @ data) (accept_message j @ ack_message j)"
  shows "\<exists>st fx sp'. sender_handler senv (ss_state x) op None data = Inr (st, fx)
    \<and> sending evp sha senv renv j sp' (perform fx (x\<lparr>ss_state := st, ss_ops := []\<rparr>))
    \<and> sent j sp' = sent j sp @ wire fx \<and> got j sp' = got j sp @ data \<and> srank j sp' = Suc (srank j sp)"
proof -
  have "s_advance senv j sp (ss_state x) (ss_log x) op data"
    by (rule sender_advances) (use assms in \<open>auto simp: sending_def\<close>)
  with assms(1) show ?thesis by (auto simp: s_advance_def sending_def perform_def)
qed

lemma receiving_moves:
  assumes "receiving evp sha senv renv j rp r" and "rs_ops r = [op]" and "rrank j rp \<noteq> 7 + 2 * nblocks j"
    and "length data = receiver_reads op"
    and "prefix (taken j rp @ data) (honest_stream (j_snd j) (j_content j))"
  shows "\<exists>st disk fx rp'. receiver_handler evp renv (rs_state r) (rs_disk r) op None data = Inr (st, disk, fx)
    \<and> receiving evp sha senv renv j rp' (rperform fx (r\<lparr>rs_state := st, rs_disk := disk, rs_ops := []\<rparr>))
    \<and> taken j rp' = taken j rp @ data \<and> replied j rp' = replied j rp @ rwire fx
    \<and> rrank j rp' = Suc (rrank j rp)"
proof -
  have "r_advance evp renv j rp r op data"
    by (rule receiver_advances) (use assms in \<open>auto simp: receiving_def\<close>)
  with assms(1) show ?thesis by (fastforce simp: r_advance_def receiving_def rperform_def)
qed

lemma receiving_accepts:
  assumes "receiving evp sha senv renv j rp r" and "rs_asked r"
  shows "\<exists>fx rp'. user_answer None (rs_state r) = Inr fx
    \<and> receiving evp sha senv renv j rp' (rperform fx (r\<lparr>rs_asked := False\<rparr>))
    \<and> taken j rp' = taken j rp \<and> replied j rp' = replied j rp @ rwire fx \<and> rrank j rp' = Suc (rrank j rp)"
proof -
  have rp: "rp = RAsk" using assms by (cases rp) (auto simp: receiving_def)
  then have "user_answer None (rs_state r) = Inr [RStart (WriteAccept (accept_message j))]"
    using assms(1) by (simp add: receiving_def accept_def accept_message_def knows_offer_def)
  with assms(1) rp show ?thesis
    by (intro exI [of _ "[RStart (WriteAccept (accept_message j))]"] exI [of _ RAcc])
      (simp add: receiving_def rperform_def fresh_receiver_def knows_offer_def)
qed

text \<open>How many bytes the receiver needs at each phase.\<close>

lemma offer_reads:
  assumes "receiver_at j rp r" and "rs_ops r = [op]" and "replied j rp = []"
    and "length (serializeOffer (offer_of (j_snd j))) \<le> CHUNK"
  shows "length (taken j rp) + receiver_reads op \<le> length (offer_message (j_snd j))"
proof -
  from announced_offer [OF assms(4)] assms show ?thesis
    by (cases rp) (auto simp: offer_message_def)
qed

lemma chunk_reads:
  assumes "receiver_at j rp r" and "rs_ops r = [op]" and "replied j rp = accept_message j"
  shows "length (taken j rp) + receiver_reads op \<le> length (honest_stream (j_snd j) (j_content j))"
proof -
  let ?H = "honest_stream (j_snd j) (j_content j)"
  have after: "length (sent_chunks (j_snd j) (j_content j) k) + (if k < nblocks j
      then 22 + length (blocks CHUNK (j_content j) ! k) else 54) \<le> length ?H" if "k \<le> nblocks j" for k
    using stream_after_chunks [OF that, of "j_snd j"] by (auto split: if_splits)
  have "replied j rp \<noteq> []" using assms(3) by simp
  then show ?thesis
  proof (cases rp)
    case RAcc
    with assms show ?thesis by (simp add: honest_stream_def)
  next
    case (RChunk k)
    with assms after [of k] show ?thesis by (auto split: if_splits)
  next
    case (RData k)
    with assms after [of k] announced_chunk [of k "j_content j"] show ?thesis by auto
  next
    case RDone
    with assms(3) show ?thesis by simp
  qed (use \<open>replied j rp \<noteq> []\<close> in simp_all)
qed


text \<open>In every phase but the last one of the ends finds the bytes it waits for, or the user is asked.\<close>

lemma receiver_enabled:
  assumes "receiver_at j rp r" and "length (serializeOffer (offer_of (j_snd j))) \<le> CHUNK"
    and "sp = SReply \<and> replied j rp = [] \<or> sp = SAck \<and> replied j rp = accept_message j"
  shows "rs_asked r \<or> (\<exists>op. rs_ops r = [op] \<and> rrank j rp \<noteq> 7 + 2 * nblocks j
    \<and> length (taken j rp) + receiver_reads op \<le> length (sent j sp))"
proof (cases "rp = RAsk")
  case False
  have nd: "rrank j rp \<noteq> 7 + 2 * nblocks j" using assms(1,3) by (cases rp) auto
  obtain op where op: "rs_ops r = [op]" using assms(1) False by (cases rp) auto
  have "length (taken j rp) + receiver_reads op \<le> length (sent j sp)"
    using assms(3) offer_reads [OF assms(1) op _ assms(2)] chunk_reads [OF assms(1) op] by auto
  with op nd show ?thesis by blast
qed (use assms(1) in simp)

lemma sender_enabled:
  assumes "sender_at j sp st ops log" and "sp \<noteq> SDone" and "length (got j sp) \<le> length (replied j rp)"
    and "sp = SReply \<longrightarrow> replied j rp \<noteq> []" and "sp = SAck \<longrightarrow> replied j rp \<noteq> accept_message j"
    and "sp = SBody \<longrightarrow> rp = RDone"
  shows "\<exists>op. ops = [op] \<and> length (got j sp) + sender_reads op \<le> length (replied j rp)"
  using assms by (cases sp; cases rp) auto

lemma delivery_enabled:
  assumes "sending evp sha senv renv j sp x" and "receiving evp sha senv renv j rp r"
    and "srank j sp + rrank j rp < (5 + nblocks j) + (7 + 2 * nblocks j)"
    and "length (got j sp) \<le> length (replied j rp)"
  shows "(\<exists>op. ss_ops x = [op] \<and> length (got j sp) + sender_reads op \<le> length (replied j rp)) \<or> rs_asked r
    \<or> (\<exists>op. rs_ops r = [op] \<and> rrank j rp \<noteq> 7 + 2 * nblocks j
        \<and> length (taken j rp) + receiver_reads op \<le> length (sent j sp))"
proof -
  have at: "sender_at j sp (ss_state x) (ss_ops x) (ss_log x)" "receiver_at j rp r"
    using assms(1,2) by (simp_all add: sending_def receiving_def)
  have o: "length (serializeOffer (offer_of (j_snd j))) \<le> CHUNK"
    using assms(1) good_offer(2) [OF good_job_offer length_sha] by (auto simp: sending_def)
  have last: "rp = RDone" if "sp = SDone \<or> sp = SBody" using assms(4) that by (cases rp) auto
  then have "sp \<noteq> SDone" using assms(3) by auto
  with sender_enabled [OF at(1) _ assms(4)] receiver_enabled [OF at(2) o, of sp] last show ?thesis by blast
qed

interpretation delivery: connected_ends evp senv renv None "sending evp sha senv renv j" "receiving evp sha senv renv j"
  "sent j" "got j" "taken j" "replied j" "srank j" "rrank j" "5 + nblocks j" "7 + 2 * nblocks j"
  "honest_stream (j_snd j) (j_content j)" "accept_message j @ ack_message j"
  for evp :: "'ctx evp" and sha senv renv j
proof unfold_locales
  fix rp r
  assume "receiving evp sha senv renv j rp r"
  then have at: "receiver_at j rp r" by (simp add: receiving_def)
  show "rs_ops r = [AcceptConnection] \<longleftrightarrow> rrank j rp = 0 \<or> rrank j rp = 7 + 2 * nblocks j"
    by (rule receiver_at_waits [OF at])
  show "\<not> rs_asked r" if "rrank j rp = 0" using at that by (cases rp) auto
qed ((rule sending_moves receiving_moves receiving_accepts delivery_enabled; assumption)
  | (auto simp: sending_def receiving_def prefix_sent prefix_replied dest: sender_at_op receiver_at_op rank_bounds)[1])+

text \<open>Both ends started: the first phase of each.\<close>

lemma transfer_start_inv:
  assumes "evp_sha256 evp sha" and "se_file senv path = Some c"
    and "length garbage = MAX_BUFFER_SIZE" and "length rgarbage = MAX_BUFFER_SIZE"
    and "startSender evp senv (newTransferSender ip port path name sid garbage gsha gsize) = Inr (True, st0, fx)"
    and "startReceiver renv (newTransferReceiver rport rsid rsize rgarbage) = (True, rst, rfx)"
  shows "st0 = (newTransferSender ip port path name sid garbage gsha gsize)
      \<lparr>ts_file_size := of_nat (length c), ts_sha256 := sha c, ts_file := Some (open_in c), ts_socket_open := True\<rparr>"
    and "let j = \<lparr>j_snd = st0, j_content = c, j_disk = disk0, j_path = p\<rparr>; s = transfer_start st0 fx rst rfx disk0 in
      live_sender j (ss_state (x_snd s)) \<and> sender_at j SConn (ss_state (x_snd s)) (ss_ops (x_snd s)) (ss_log (x_snd s))
      \<and> length (tr_buffer (rs_state (x_rcv s))) = MAX_BUFFER_SIZE \<and> receiver_at j RConn (x_rcv s)
      \<and> x_up s = [] \<and> x_down s = [] \<and> x_backlog s"
proof -
  let ?new = "newTransferSender ip port path name sid garbage gsha gsize"
  show st0: "st0 = ?new\<lparr>ts_file_size := of_nat (length c), ts_sha256 := sha c,
      ts_file := Some (open_in c), ts_socket_open := True\<rparr>"
    using assms(5) startSender_ok [OF assms(1), of senv ?new] assms(2)
    by (auto simp: newTransferSender_def split: if_splits)
  have fx: "fx = [SStart (ConnectTo ip port)]"
    using assms(5) startSender_ok [OF assms(1), of senv ?new] assms(2)
    by (auto simp: newTransferSender_def split: if_splits)
  obtain q where rst: "rst = (newTransferReceiver rport rsid rsize rgarbage)
      \<lparr>tr_listen_port := q, tr_acceptor_open := True, tr_socket := Some False\<rparr>"
    and rfx: "rfx = [RStart AcceptConnection]"
    using assms(6) by (auto simp: startReceiver_def listenForConnections_def split: option.splits)
  show "let j = \<lparr>j_snd = st0, j_content = c, j_disk = disk0, j_path = p\<rparr>; s = transfer_start st0 fx rst rfx disk0 in
      live_sender j (ss_state (x_snd s)) \<and> sender_at j SConn (ss_state (x_snd s)) (ss_ops (x_snd s)) (ss_log (x_snd s))
      \<and> length (tr_buffer (rs_state (x_rcv s))) = MAX_BUFFER_SIZE \<and> receiver_at j RConn (x_rcv s)
      \<and> x_up s = [] \<and> x_down s = [] \<and> x_backlog s"
    using assms(3,4) by (simp add: transfer_start_def fx rfx perform_def rperform_def live_sender_def
        sound_state_def read_up_to_def reported_def progress_after_def st0 rst newTransferSender_def
        newTransferReceiver_def fresh_receiver_def open_in_def Let_def)
qed

section \<open>Properties\<close>

text \<open>
  C1. End to end: a sender started on a file with content \<open>c\<close> and a fresh receiver, connected by
  reliable streams, with a user who accepts and a disk that has room. Whatever the order in which
  their handlers run, every run ends after exactly \<open>12 + 3 n\<close> steps for a file of \<open>n\<close> blocks, never
  earlier; then the receiver's disk is what it was plus the file, byte for byte, under the path
  that \<open>resolveFilePath\<close> chose, both ends have reported success once and the same progress after
  every block, and the receiver waits for the next connection.
\<close>

theorem transfer_delivers:
  assumes "evp_sha256 evp sha" and "se_file senv path = Some c"
    and "length garbage = MAX_BUFFER_SIZE" and "length rgarbage = MAX_BUFFER_SIZE"
    and "startSender evp senv (newTransferSender ip port path name sid garbage gsha gsize) = Inr (True, st0, fx)"
    and "startReceiver renv (newTransferReceiver rport rsid rsize rgarbage) = (True, rst, rfx)"
    and "length (filename path) + length name \<le> 32694"
    and "se_write_ok senv" and "re_write_ok renv" and "CHUNK \<le> re_room renv"
    and "\<forall>valid. re_valid renv = Some valid \<longrightarrow> valid name"
    and "resolveFilePath (path_exists renv disk0) (getDownloadsFolder (re_folder renv)) (filename path) = Inr p"
    and "p \<noteq> []" and "re_create_ok renv p"
    and "(transfer_step evp senv renv None ^^ n) (transfer_start st0 fx rst rfx disk0) s"
  shows "n \<le> 12 + 3 * length (blocks CHUNK c)
    \<and> ((\<exists>t. transfer_step evp senv renv None s t) \<longleftrightarrow> n < 12 + 3 * length (blocks CHUNK c))
    \<and> (n = 12 + 3 * length (blocks CHUNK c) \<longrightarrow>
        rs_disk (x_rcv s) = disk0(p \<mapsto> c)
        \<and> completions (ss_log (x_snd s)) = [(True, path)] \<and> rcompletions (rs_log (x_rcv s)) = [(True, p)]
        \<and> progress (ss_log (x_snd s)) = map (progress_after c) [1..<Suc (length (blocks CHUNK c))]
        \<and> rprogress (rs_log (x_rcv s)) = map (progress_after c) [1..<Suc (length (blocks CHUNK c))]
        \<and> ss_ops (x_snd s) = [] \<and> rs_ops (x_rcv s) = [AcceptConnection])"
proof -
  let ?j = "\<lparr>j_snd = st0, j_content = c, j_disk = disk0, j_path = p\<rparr>"
  have st0: "st0 = (newTransferSender ip port path name sid garbage gsha gsize)
      \<lparr>ts_file_size := of_nat (length c), ts_sha256 := sha c, ts_file := Some (open_in c), ts_socket_open := True\<rparr>"
    by (rule transfer_start_inv(1) [OF assms(1-6)])
  have good: "good_job sha senv renv ?j"
    using assms(7-14) by (simp add: good_job_def offer_job_def st0 newTransferSender_def)
  let ?inv = "connected (sending evp sha senv renv ?j) (receiving evp sha senv renv ?j)
    (sent ?j) (got ?j) (taken ?j) (replied ?j) (srank ?j) (rrank ?j)"
  have start: "?inv 0 (transfer_start st0 fx rst rfx disk0)"
    using transfer_start_inv(2) [OF assms(1-6), of disk0 p] good assms(1) unfolding connected_def
    by (intro exI [of _ SConn] exI [of _ RConn]) (simp add: Let_def sending_def receiving_def)
  have final: "sender_at ?j SDone (ss_state (x_snd s)) (ss_ops (x_snd s)) (ss_log (x_snd s)) \<and> receiver_at ?j RDone (x_rcv s)"
    if "n = 12 + 3 * length (blocks CHUNK c)"
  proof (rule delivery.run_final [OF start])
    have "5 + nblocks ?j + (7 + 2 * nblocks ?j) = n" using that by simp
    with assms(15) show "(transfer_step evp senv renv None ^^ (5 + nblocks ?j + (7 + 2 * nblocks ?j)))
        (transfer_start st0 fx rst rfx disk0) s" by (simp only:)
  qed (use sending_final receiving_final in blast)
  have "path = ts_file_path st0" by (simp add: st0 newTransferSender_def)
  with final delivery.run_ends [OF start assms(15)] show ?thesis
    by (auto simp: reported_def simp del: upt_Suc)
qed

lemma sample_ends:
  "se_file sample_env [47, 97] = Some [1, 2, 3]" "se_write_ok sample_env"
  "length (replicate MAX_BUFFER_SIZE (0 :: u8)) = MAX_BUFFER_SIZE"
  "re_write_ok sample_renv" "CHUNK \<le> re_room sample_renv"
  "\<forall>valid. re_valid sample_renv = Some valid \<longrightarrow> valid [65]" "re_create_ok sample_renv [100, 47, 97]"
  "length (filename [47, 97]) + length [65 :: u8] \<le> 32694"
  by (simp_all add: sample_env_def sample_renv_def filename_def)

text \<open>The sample sender and receiver of the two components: three bytes, one block, 15 steps.\<close>

theorem transfer_delivers_witness:
  "\<exists>st0 s. startSender pad_evp sample_env sample_sender = Inr (True, st0, [SStart (ConnectTo [49] 50001)])
     \<and> (transfer_step pad_evp sample_env sample_renv None ^^ 15) (transfer_start st0 [SStart (ConnectTo [49] 50001)]
          sample_receiver [RStart AcceptConnection] Map.empty) s
     \<and> rs_disk (x_rcv s) = [[100, 47, 97] \<mapsto> [1, 2, 3]]
     \<and> completions (ss_log (x_snd s)) = [(True, [47, 97])]"
proof -
  let ?job = "sample_sender\<lparr>ts_file_size := 3, ts_sha256 := pad32 [1, 2, 3],
    ts_file := Some (open_in [1, 2, 3]), ts_socket_open := True\<rparr>"
  let ?fx = "[SStart (ConnectTo [49] 50001)]"
  let ?start = "transfer_start ?job ?fx sample_receiver [RStart AcceptConnection] Map.empty"
  let ?step = "transfer_step pad_evp sample_env sample_renv None"
  have path: "resolveFilePath (path_exists sample_renv Map.empty) (getDownloadsFolder (re_folder sample_renv))
      (filename [47, 97]) = Inr [100, 47, 97]"
    by (simp add: resolveFilePath_def path_exists_def sample_renv_def getDownloadsFolder_def filename_def
        path_append_def is_absolute_def has_filename_def)
  have ne: "[100, 47, 97] \<noteq> ([] :: bytes)" by simp
  note d = transfer_delivers [OF pad_evp_sha256 sample_ends(1,3,3) sample_started [unfolded sample_sender_def]
      sample_receiver_started sample_ends(8,2,4-6) path ne sample_ends(7), folded sample_sender_def]
  have one: "length (blocks CHUNK [1, 2, 3]) = 1" by (simp add: blocks_def)
  have "\<exists>s. (?step ^^ 15) ?start s"
    by (rule run_of_length [where m = 15]) (use d one in auto)
  then obtain s where s: "(?step ^^ 15) ?start s" by blast
  with d [OF s] one have "rs_disk (x_rcv s) = [[100, 47, 97] \<mapsto> [1, 2, 3]]"
    "completions (ss_log (x_snd s)) = [(True, [47, 97])]" by simp_all
  with s sample_started show ?thesis by blast
qed

end
