(* ===== verification/File_Refusal.thy ===== *)
theory File_Refusal
  imports File_Transfer
begin

text \<open>
  The connected sender and receiver of \<open>File_Transfer\<close> when the user declines the offer: the
  phases after the question, the invariant of all runs, and that every run ends with the sender
  told and nothing stored.
\<close>

section \<open>Phases\<close>


definition reject_message :: "job \<Rightarrow> RejectReason \<Rightarrow> bytes" where
  "reject_message j reason = frame TRANSFER_REJECT (ts_session_id (j_snd j)) (serializeReject \<lparr>rp_reason = reason\<rparr>)"









section \<open>The sender\<close>

lemma length_reject [simp]:
  "length (reject_message j reason) = 23" "length (take 22 (reject_message j reason)) = 22"
  by (simp_all add: reject_message_def serializeReject_def)








section \<open>The receiver\<close>





section \<open>All runs\<close>

















section \<open>Properties\<close>



end
