(* ===== verification/Net_Store.thy ===== *)
theory Net_Store
  imports Paths Streams Protocol
begin

text \<open>
  What \<open>src/src/core/NetTransfer.cpp\<close> keeps in its configuration directory: the configuration
  file, the store of trusted devices and the certificate files, and the fingerprint under which
  a device is trusted. The JSON library is a parameter: \<open>jl_parse\<close> is \<open>operator>>\<close> on a variable
  with some value (whether it succeeded, and what the variable holds then), \<open>jl_dump\<close> is
  \<open>dump(4)\<close>, which throws on strings that are not UTF-8. The predicate \<open>json_ok\<close> is what the
  program relies on: what was dumped is read back.
\<close>

section \<open>JSON values\<close>

text \<open>A float stands for its value truncated to an integer, which is all that is used of it.\<close>

datatype json =
    JNull
  | JBool bool
  | JNumber int
  | JFloat int
  | JString bytes
  | JArray "json list"
  | JObject "bytes \<Rightarrow> json option"

record json_lib =
  jl_parse :: "bytes \<Rightarrow> json \<Rightarrow> bool \<times> json"
  jl_dump :: "json \<Rightarrow> bytes option"

definition json_ok :: "json_lib \<Rightarrow> bool" where
  "json_ok lib \<longleftrightarrow> (\<forall>v s w. jl_dump lib v = Some s \<longrightarrow> jl_parse lib s w = (True, v))"

definition json_empty :: json where
  "json_empty = JObject Map.empty"

text \<open>\<open>contains\<close> is false on anything but an object.\<close>

fun json_lookup :: "json \<Rightarrow> bytes \<Rightarrow> json option" where
  "json_lookup (JObject m) key = m key"
| "json_lookup _ key = None"

text \<open>\<open>j[key] = v\<close> turns null into an object and throws on every other value.\<close>

fun json_assign :: "bytes \<Rightarrow> json \<Rightarrow> json \<Rightarrow> json run" where
  "json_assign key v (JObject m) = Inr (JObject (m(key \<mapsto> v)))"
| "json_assign key v JNull = Inr (JObject [key \<mapsto> v])"
| "json_assign key v _ = Inl Uncaught"

text \<open>The implicit conversions to \<open>std::string\<close> and \<open>uint16_t\<close>.\<close>

fun json_string :: "json \<Rightarrow> bytes run" where
  "json_string (JString s) = Inr s"
| "json_string _ = Inl Uncaught"

fun json_u16 :: "json \<Rightarrow> u16 run" where
  "json_u16 (JNumber i) = Inr (of_int i)"
| "json_u16 (JFloat i) = (if 0 \<le> i \<and> i < 65536 then Inr (of_int i) else Inl OutOfBounds)"
| "json_u16 (JBool b) = Inr (if b then 1 else 0)"
| "json_u16 _ = Inl Uncaught"

section \<open>Configuration\<close>

definition ascii :: "string \<Rightarrow> bytes" where
  "ascii cs = map of_char cs"

definition TRUSTED_FILE :: bytes where "TRUSTED_FILE = ascii ''trusted_devices.json''"
definition KEY_FILE :: bytes where "KEY_FILE = ascii ''key.pem''"
definition CERT_FILE :: bytes where "CERT_FILE = ascii ''cert.pem''"
definition CONFIG_FILE :: bytes where "CONFIG_FILE = ascii ''config.json''"

record Config =
  cf_device_name :: bytes
  cf_tcp_port :: "u16 option"  \<comment> \<open>\<open>None\<close> while it has no value\<close>

text \<open>The POSIX branch; \<open>std::filesystem::path\<close> of a null pointer is not allowed.\<close>

definition getConfigPath :: "bytes option \<Rightarrow> bytes option \<Rightarrow> bool \<Rightarrow> bytes run" where
  "getConfigPath xdg home mkdir_ok =
     andThen
       (case xdg of
          Some d \<Rightarrow> Inr (path_append d (ascii ''NetTransfer''))
        | None \<Rightarrow>
            (case home of
               None \<Rightarrow> Inl OutOfBounds
             | Some h \<Rightarrow> Inr (path_append (path_append h (ascii ''.config'')) (ascii ''NetTransfer''))))
       (\<lambda>config_path. if mkdir_ok then Inr (path_append config_path []) else Inl Uncaught)"

definition loadConfig :: "json_lib \<Rightarrow> disk \<Rightarrow> bytes \<Rightarrow> Config \<Rightarrow> (bool \<times> Config) run" where
  "loadConfig lib disk dir config =
     (case disk (dir @ CONFIG_FILE) of
        None \<Rightarrow> Inr (False, config)
      | Some content \<Rightarrow>
          let (ok, conf) = jl_parse lib content json_empty in
          if \<not> ok then Inr (False, config)
          else
            (case (json_lookup conf (ascii ''device_name''), json_lookup conf (ascii ''tcp_port'')) of
               (Some name, Some port) \<Rightarrow>
                 andThen (json_string name) (\<lambda>name.
                 andThen (json_u16 port) (\<lambda>port.
                 Inr (True, \<lparr>cf_device_name = name, cf_tcp_port = Some port\<rparr>)))
             | _ \<Rightarrow> Inr (False, config)))"

definition config_json :: "bytes \<Rightarrow> u16 \<Rightarrow> json" where
  "config_json name port =
     JObject [ascii ''device_name'' \<mapsto> JString name, ascii ''tcp_port'' \<mapsto> JNumber (uint port)]"

text \<open>Opening the file for writing empties it before the value is dumped.\<close>

definition saveConfig ::
  "json_lib \<Rightarrow> (bytes \<Rightarrow> bool) \<Rightarrow> disk \<Rightarrow> bytes \<Rightarrow> Config \<Rightarrow> disk \<times> bool run" where
  "saveConfig lib writable disk dir config =
     (let path = dir @ CONFIG_FILE in
      if \<not> writable path then (disk, Inr False)
      else
        let disk = disk(path \<mapsto> []) in
        case cf_tcp_port config of
          None \<Rightarrow> (disk, Inl Uninitialised)
        | Some port \<Rightarrow>
            (case jl_dump lib (config_json (cf_device_name config) port) of
               None \<Rightarrow> (disk, Inl Uncaught)
             | Some s \<Rightarrow> (disk(path \<mapsto> s), Inr True)))"

section \<open>Fingerprints\<close>

definition hex_digit :: "nat \<Rightarrow> u8" where
  "hex_digit n = (if n < 10 then of_nat (48 + n) else of_nat (87 + n))"

definition hex2 :: "u8 \<Rightarrow> bytes" where
  "hex2 b = [hex_digit (unat b div 16), hex_digit (unat b mod 16)]"

text \<open>The loop that prints the digest; \<open>None\<close> stands for a peer without certificate or a failing
  \<open>X509_digest\<close>.\<close>

definition getCertFingerprint :: "bytes option \<Rightarrow> bytes" where
  "getCertFingerprint peer =
     (case peer of
        None \<Rightarrow> []
      | Some buffer \<Rightarrow>
          concat (map (\<lambda>i. (if i > 0 then [58] else []) @ hex2 (buffer ! i)) [0..<length buffer]))"

section \<open>The certificate files\<close>

text \<open>
  OpenSSL is a parameter here: what a file holds as a certificate (\<open>None\<close>: it cannot be read as
  one), whether that is still valid, and the files written for a new key, which depend on the random numbers that
  are drawn for it. An existing file is taken to be readable, and a file that was opened is written completely.
\<close>

record cert_lib =
  cl_valid :: "bytes \<Rightarrow> bool option"
  cl_key_pem :: "nat \<Rightarrow> bytes"
  cl_cert_pem :: "nat \<Rightarrow> bytes \<Rightarrow> bytes"

definition ensureCertExists ::
  "cert_lib \<Rightarrow> nat \<Rightarrow> (bytes \<Rightarrow> bool) \<Rightarrow> disk \<Rightarrow> bytes \<Rightarrow> bytes \<Rightarrow> disk run" where
  "ensureCertExists lib random writable disk dir device_name =
     (let generate =
        (if \<not> writable (dir @ KEY_FILE) then Inr disk
         else
           let disk = disk(dir @ KEY_FILE \<mapsto> cl_key_pem lib random) in
           if \<not> writable (dir @ CERT_FILE) then Inr disk
           else Inr (disk(dir @ CERT_FILE \<mapsto> cl_cert_pem lib random (c_string device_name))))
      in case (disk (dir @ KEY_FILE), disk (dir @ CERT_FILE)) of
           (Some _, Some cert) \<Rightarrow>
             (case cl_valid lib cert of
                None \<Rightarrow> Inl OutOfBounds
              | Some valid \<Rightarrow> if valid then Inr disk else generate)
         | _ \<Rightarrow> generate)"

section \<open>Lemmas\<close>

lemma unat_of_nat_8: "n < 256 \<Longrightarrow> unat (of_nat n :: u8) = n"
  by (simp only: unsigned_of_nat) (simp add: take_bit_nat_eq_self)

lemma unat_hex_digit:
  assumes "n < 16"
  shows "unat (hex_digit n) = (if n < 10 then 48 + n else 87 + n)"
proof (cases "n < 10")
  case True
  then show ?thesis using unat_of_nat_8 [of "48 + n"] by (simp only: hex_digit_def if_True)
next
  case False
  then show ?thesis using unat_of_nat_8 [of "87 + n"] assms by (simp only: hex_digit_def if_False)
qed

lemma hex_digit_inject:
  assumes "m < 16" and "n < 16" and "hex_digit m = hex_digit n"
  shows "m = n"
proof -
  have "(if m < 10 then 48 + m else 87 + m) = (if n < 10 then 48 + n else 87 + n)"
    using unat_hex_digit [OF assms(1)] unat_hex_digit [OF assms(2)] by (simp only: assms(3))
  then show ?thesis by (cases "m < 10"; cases "n < 10") simp_all
qed

lemma hex2_inject: "hex2 a = hex2 b \<longleftrightarrow> a = b"
proof
  assume h: "hex2 a = hex2 b"
  have lt: "unat x div 16 < 16" for x :: u8 using unat_u8_less [of x] by linarith
  have "hex_digit (unat a div 16) = hex_digit (unat b div 16)"
    and "hex_digit (unat a mod 16) = hex_digit (unat b mod 16)"
    using h unfolding hex2_def by blast+
  then have "unat a div 16 = unat b div 16" and "unat a mod 16 = unat b mod 16"
    using hex_digit_inject [OF lt lt] hex_digit_inject [of "unat a mod 16" "unat b mod 16"] by auto
  then have "unat a = unat b" by (metis div_mult_mod_eq)
  then show "a = b" by (simp only: word_unat_eq_iff)
qed simp

lemma length_hex2 [simp]: "length (hex2 b) = 2"
  by (simp add: hex2_def)

lemma fingerprint_Nil: "getCertFingerprint (Some []) = []"
  by (simp add: getCertFingerprint_def)

lemma fingerprint_Cons:
  "getCertFingerprint (Some (x # xs)) = hex2 x @ concat (map (\<lambda>y. 58 # hex2 y) xs)"
proof -
  have "map (\<lambda>i. (if 0 < i then [58] else []) @ hex2 ((x # xs) ! i)) [0..<Suc (length xs)]
      = hex2 x # map (\<lambda>i. 58 # hex2 (xs ! i)) [0..<length xs]"
    by (simp only: upt_conv_Cons [OF zero_less_Suc] map_Suc_upt [symmetric] list.map map_map comp_def) simp
  also have "map (\<lambda>i. 58 # hex2 (xs ! i)) [0..<length xs] = map (\<lambda>y. 58 # hex2 y) xs"
    by (rule nth_equalityI) simp_all
  finally show ?thesis by (simp add: getCertFingerprint_def del: upt_Suc)
qed

lemma concat_hex_inject:
  "concat (map (\<lambda>y. 58 # hex2 y) xs) = concat (map (\<lambda>y. 58 # hex2 y) ys) \<longleftrightarrow> xs = ys"
proof (induction xs arbitrary: ys)
  case Nil
  then show ?case by (cases ys) simp_all
next
  case (Cons x xs)
  then show ?case by (cases ys) (simp_all add: append_eq_append_conv hex2_inject)
qed

lemma hex2_nonempty [simp]: "hex2 b \<noteq> []" "[] \<noteq> hex2 b"
  by (simp_all add: hex2_def)

lemma fingerprint_inject: "getCertFingerprint (Some a) = getCertFingerprint (Some b) \<longleftrightarrow> a = b"
  by (cases a; cases b)
    (simp_all add: fingerprint_Nil fingerprint_Cons append_eq_append_conv hex2_inject concat_hex_inject)

lemma fingerprint_empty: "getCertFingerprint peer = [] \<longleftrightarrow> peer = None \<or> peer = Some []"
proof (cases peer)
  case (Some b)
  then show ?thesis by (cases b) (simp_all add: fingerprint_Nil fingerprint_Cons)
qed (simp add: getCertFingerprint_def)

text \<open>The names in use differ in their length.\<close>

lemma length_names [simp]:
  "length CONFIG_FILE = 11" "length TRUSTED_FILE = 20" "length KEY_FILE = 7" "length CERT_FILE = 8"
  "length (ascii cs) = length cs"
  by (simp_all add: CONFIG_FILE_def TRUSTED_FILE_def KEY_FILE_def CERT_FILE_def ascii_def)

lemma length_neq: "length xs \<noteq> length ys \<Longrightarrow> xs \<noteq> ys"
  by auto

lemma names_distinct [simp]:
  "CONFIG_FILE \<noteq> TRUSTED_FILE" "TRUSTED_FILE \<noteq> CONFIG_FILE" "KEY_FILE \<noteq> CERT_FILE" "CERT_FILE \<noteq> KEY_FILE"
  "TRUSTED_FILE \<noteq> KEY_FILE" "TRUSTED_FILE \<noteq> CERT_FILE" "KEY_FILE \<noteq> TRUSTED_FILE" "CERT_FILE \<noteq> TRUSTED_FILE"
  "CONFIG_FILE \<noteq> KEY_FILE" "CONFIG_FILE \<noteq> CERT_FILE" "KEY_FILE \<noteq> CONFIG_FILE" "CERT_FILE \<noteq> CONFIG_FILE"
  "TRUSTED_FILE \<noteq> []"
  "ascii ''device_name'' \<noteq> ascii ''tcp_port''" "ascii ''tcp_port'' \<noteq> ascii ''device_name''"
  by (rule length_neq, simp)+

lemma save_file:
  assumes "saveConfig lib writable disk dir config = (disk', Inr True)"
  obtains port s where "cf_tcp_port config = Some port"
    and "jl_dump lib (config_json (cf_device_name config) port) = Some s"
    and "disk' = disk(dir @ CONFIG_FILE \<mapsto> s)"
  using assms by (auto simp: saveConfig_def Let_def split: if_splits option.splits)

lemma save_load:
  assumes "json_ok lib" and "saveConfig lib writable disk dir config = (disk', Inr True)"
  shows "loadConfig lib disk' dir any = Inr (True, config)"
proof -
  obtain port s where s: "cf_tcp_port config = Some port"
      "jl_dump lib (config_json (cf_device_name config) port) = Some s" "disk' = disk(dir @ CONFIG_FILE \<mapsto> s)"
    using save_file [OF assms(2)] .
  then have "jl_parse lib s json_empty = (True, config_json (cf_device_name config) port)"
    using assms(1) by (simp add: json_ok_def)
  then have "loadConfig lib disk' dir any
      = Inr (True, \<lparr>cf_device_name = cf_device_name config, cf_tcp_port = Some port\<rparr>)"
    by (simp add: loadConfig_def s(3) config_json_def)
  also have "\<lparr>cf_device_name = cf_device_name config, cf_tcp_port = Some port\<rparr> = config"
    unfolding s(1) [symmetric] by simp
  finally show ?thesis .
qed

lemma save_other_files:
  assumes "saveConfig lib writable disk dir config = (disk', Inr True)" and "p \<noteq> dir @ CONFIG_FILE"
  shows "disk' p = disk p"
  by (rule save_file [OF assms(1)]) (simp add: assms(2))

section \<open>Properties\<close>

text \<open>
  C31. A configuration that was saved is loaded again as it was, whatever the program's
  configuration held before, and saving touches no other file of the disk. The port survives the
  way through the JSON number at its full 16 bits.
\<close>

theorem config_roundtrip:
  assumes "json_ok lib"
    and "saveConfig lib writable disk dir \<lparr>cf_device_name = name, cf_tcp_port = Some port\<rparr> = (disk', Inr True)"
  shows "loadConfig lib disk' dir config = Inr (True, \<lparr>cf_device_name = name, cf_tcp_port = Some port\<rparr>)
    \<and> (\<forall>p. p \<noteq> dir @ CONFIG_FILE \<longrightarrow> disk' p = disk p)"
  using save_load [OF assms] save_other_files [OF assms(2)] by simp

text \<open>A library that knows one value.\<close>

definition one_value_lib :: "json \<Rightarrow> json_lib" where
  "one_value_lib v = \<lparr>jl_parse = (\<lambda>s w. if s = [123] then (True, v) else (False, w)),
     jl_dump = (\<lambda>w. if w = v then Some [123] else None)\<rparr>"

lemma one_value_lib_ok: "json_ok (one_value_lib v)"
  by (simp add: json_ok_def one_value_lib_def)

theorem config_roundtrip_witness:
  "loadConfig (one_value_lib (config_json [65] 50001)) [CONFIG_FILE \<mapsto> [123]] []
     \<lparr>cf_device_name = [], cf_tcp_port = None\<rparr> = Inr (True, \<lparr>cf_device_name = [65], cf_tcp_port = Some 50001\<rparr>)"
  using config_roundtrip [OF one_value_lib_ok, of "config_json [65] 50001" "\<lambda>_. True" Map.empty "[]" "[65]" 50001
      "[CONFIG_FILE \<mapsto> [123]]"]
  by (simp add: saveConfig_def one_value_lib_def)

text \<open>
  The fingerprint identifies the certificate: two digests have the same fingerprint only if
  they are equal, and a peer that shows no certificate has the empty fingerprint, which no
  32-byte digest has.
\<close>

lemma fingerprint_identifies:
  "(getCertFingerprint (Some a) = getCertFingerprint (Some b) \<longleftrightarrow> a = b)
   \<and> getCertFingerprint None = []
   \<and> (length a = 32 \<longrightarrow> length (getCertFingerprint (Some a)) = 95)"
proof -
  have "length (concat (map (\<lambda>y. 58 # hex2 y) xs)) = 3 * length xs" for xs :: bytes
    by (induction xs) simp_all
  then have "length a = 32 \<longrightarrow> length (getCertFingerprint (Some a)) = 95"
    by (cases a) (simp_all add: fingerprint_Cons)
  then show ?thesis by (simp add: fingerprint_inject fingerprint_empty)
qed

text \<open>
  C32. \<open>ensureCertExists\<close> on a writable directory, with an OpenSSL whose new certificates are valid. When key and
  certificate are there and the certificate is valid, nothing is written, whatever random numbers
  would be drawn; when one is missing or the certificate has expired, both are replaced by a new pair. So afterwards a
  valid pair is there, no other file has changed, and a later call keeps this pair. Only a certificate file that is
  not a certificate makes the function fail: the null pointer that reading it gives is dereferenced.
\<close>

theorem ensureCertExists_correct:
  assumes "writable (dir @ KEY_FILE)" and "writable (dir @ CERT_FILE)"
    and "\<And>r n. cl_valid lib (cl_cert_pem lib r n) = Some True"
  shows "case ensureCertExists lib random writable disk dir name of
      Inl e \<Rightarrow> e = OutOfBounds
        \<and> (\<exists>key cert. disk (dir @ KEY_FILE) = Some key \<and> disk (dir @ CERT_FILE) = Some cert \<and> cl_valid lib cert = None)
    | Inr disk' \<Rightarrow>
        (if \<exists>key cert. disk (dir @ KEY_FILE) = Some key \<and> disk (dir @ CERT_FILE) = Some cert \<and> cl_valid lib cert = Some True
         then disk' = disk
         else disk' (dir @ KEY_FILE) = Some (cl_key_pem lib random)
           \<and> disk' (dir @ CERT_FILE) = Some (cl_cert_pem lib random (c_string name)))
        \<and> (\<exists>key cert. disk' (dir @ KEY_FILE) = Some key \<and> disk' (dir @ CERT_FILE) = Some cert
            \<and> cl_valid lib cert = Some True)
        \<and> (\<forall>p. p \<noteq> dir @ KEY_FILE \<and> p \<noteq> dir @ CERT_FILE \<longrightarrow> disk' p = disk p)
        \<and> (\<forall>random' name'. ensureCertExists lib random' writable disk' dir name' = Inr disk')"
proof -
  let ?new = "disk(dir @ KEY_FILE \<mapsto> cl_key_pem lib random, dir @ CERT_FILE \<mapsto> cl_cert_pem lib random (c_string name))"
  consider (kept) key cert where "disk (dir @ KEY_FILE) = Some key" "disk (dir @ CERT_FILE) = Some cert"
      "cl_valid lib cert = Some True"
    | (broken) key cert where "disk (dir @ KEY_FILE) = Some key" "disk (dir @ CERT_FILE) = Some cert"
      "cl_valid lib cert = None"
    | (new) "\<not> (\<exists>key cert. disk (dir @ KEY_FILE) = Some key \<and> disk (dir @ CERT_FILE) = Some cert
        \<and> cl_valid lib cert = Some True)" "ensureCertExists lib random writable disk dir name = Inr ?new"
    using assms(1,2)
    by (cases "disk (dir @ KEY_FILE)"; cases "disk (dir @ CERT_FILE)"; cases "cl_valid lib (the (disk (dir @ CERT_FILE)))";
        cases "cl_valid lib (the (disk (dir @ CERT_FILE))) = Some True") (auto simp: ensureCertExists_def)
  then show ?thesis
  proof cases
    case new
    have "ensureCertExists lib random' writable ?new dir name' = Inr ?new" for random' name'
      using assms(3) by (simp add: ensureCertExists_def)
    with new(2) assms(3) show ?thesis unfolding new(2) sum.case if_not_P [OF new(1)] by simp
  qed (simp_all add: ensureCertExists_def)
qed

text \<open>An expired pair is replaced by the one for the number that is drawn, and a valid one is kept.\<close>

definition sample_cert_lib :: cert_lib where
  "sample_cert_lib = \<lparr>cl_valid = (\<lambda>c. if c = [] then None else Some (hd c = 9)),
     cl_key_pem = (\<lambda>r. [8, of_nat r]), cl_cert_pem = (\<lambda>r n. [9, of_nat r])\<rparr>"

theorem ensureCertExists_correct_witness:
  "\<exists>disk'. ensureCertExists sample_cert_lib 5 (\<lambda>_. True) [KEY_FILE \<mapsto> [1], CERT_FILE \<mapsto> [2]] [] [65] = Inr disk'
    \<and> disk' CERT_FILE = Some [9, 5] \<and> ensureCertExists sample_cert_lib 6 (\<lambda>_. True) disk' [] [66] = Inr disk'"
proof -
  let ?disk = "[KEY_FILE \<mapsto> [1], CERT_FILE \<mapsto> [2]] :: disk"
  have v: "cl_valid sample_cert_lib (cl_cert_pem sample_cert_lib r n) = Some True" for r n
    by (simp add: sample_cert_lib_def)
  obtain disk' where d: "ensureCertExists sample_cert_lib 5 (\<lambda>_. True) ?disk [] [65] = Inr disk'"
    by (simp add: ensureCertExists_def sample_cert_lib_def)
  have "cl_valid sample_cert_lib [2] = Some False" "cl_cert_pem sample_cert_lib 5 n = [9, 5]" for n
    by (simp_all add: sample_cert_lib_def)
  with d ensureCertExists_correct [OF _ _ v, where writable = "\<lambda>_. True" and dir = "[]" and random = 5
      and disk = ?disk and name = "[65]"] show ?thesis by simp
qed

end
