(* ===== verification/Discovery.thy ===== *)
theory Discovery
  imports Payloads Machine
begin

text \<open>
  The discovery service of \<open>src/include/discovery.h\<close> and \<open>src/src/core/discovery.cpp\<close>: the
  table of devices seen on the network, the periodic broadcast and the handler of incoming
  datagrams. A method is a function from the service's state to its new state and the list of
  effects it causes, in order: datagrams sent, callbacks made, asynchronous operations started.
  What the operating system and Asio answer (the clock, whether \<open>send_to\<close> succeeds, the local
  address, the text of an address) is the record \<open>udp_env\<close>; the datagram, its sender and the
  error code come with the completion.
\<close>

unbundle bit_operations_syntax

section \<open>State\<close>

text \<open>\<open>steady_clock\<close> counts nanoseconds; the C++ time point is a signed 64-bit count, far from its
  bounds, so the model uses integers.\<close>

abbreviation SEARCH_LOOP :: nat where "SEARCH_LOOP \<equiv> 5"
abbreviation BUFFER_MAX_SIZE :: nat where "BUFFER_MAX_SIZE \<equiv> 512"
definition WAIT_TIME :: int where "WAIT_TIME = 15 * 1000000000"

record DiscoveredDevice =
  dd_name :: bytes
  dd_ip :: bytes
  dd_tcp_port :: u16
  dd_last_seen :: int

record DiscoveryService =
  ds_device_name :: bytes
  ds_tcp_port :: u16
  ds_discoveredDevices :: "DiscoveredDevice list"
  ds_buffer_incoming :: bytes
  ds_socket_open :: bool

datatype discovery_effect =
    AsyncReceive
  | AsyncWait nat
  | CancelTimer
  | SendTo u32 u16 bytes
  | OnDeviceFound DiscoveredDevice
  | OnDeviceLeft DiscoveredDevice

record udp_env =
  env_now :: int
  env_local :: "u32 option"  \<comment> \<open>\<open>local_endpoint().address()\<close>, \<open>None\<close> when it throws\<close>
  env_to_string :: "u32 \<Rightarrow> bytes"
  env_send_ok :: bool
  env_open_ok :: bool
  env_option_ok :: bool
  env_bind_ok :: bool
  env_close_ok :: bool

section \<open>Operations\<close>

definition newDiscoveryService :: "bytes \<Rightarrow> u16 \<Rightarrow> bytes \<Rightarrow> DiscoveryService" where
  "newDiscoveryService nm port garbage =
     \<lparr>ds_device_name = nm, ds_tcp_port = port, ds_discoveredDevices = [],
      ds_buffer_incoming = garbage, ds_socket_open = False\<rparr>"

definition getDevices :: "DiscoveryService \<Rightarrow> DiscoveredDevice list" where
  "getDevices st = ds_discoveredDevices st"

definition setTcpPort :: "u16 \<Rightarrow> DiscoveryService \<Rightarrow> DiscoveryService" where
  "setTcpPort port st = st\<lparr>ds_tcp_port := port\<rparr>"

definition setDeviceName :: "bytes \<Rightarrow> DiscoveryService \<Rightarrow> DiscoveryService" where
  "setDeviceName nm st = st\<lparr>ds_device_name := nm\<rparr>"

definition own_payload :: "DiscoveryService \<Rightarrow> bytes" where
  "own_payload st =
     serializeDiscovery \<lparr>dp_device_name = ds_device_name st, dp_tcp_port = ds_tcp_port st\<rparr>"

text \<open>A failing \<open>send_to\<close> is caught and logged.\<close>

definition sendBroadcast :: "udp_env \<Rightarrow> DiscoveryService \<Rightarrow> discovery_effect list" where
  "sendBroadcast env st =
     (let payload = own_payload st;
          base = \<lparr>magic = NT_MAGIC, version = NT_VERSION, msg_type = DISCOVERY_BROADCAST,
                  session_id = 0, payload_len = of_nat (length payload), header_crc = 0\<rparr>;
          message = serializeHeader base @ payload
      in if env_send_ok env then [SendTo 0xFFFFFFFF UDP_DISCOVERY_PORT message] else [])"

definition listenForPackages :: "discovery_effect list" where
  "listenForPackages = [AsyncReceive]"

definition startTimer :: "discovery_effect list" where
  "startTimer = [AsyncWait SEARCH_LOOP]"

text \<open>
  The loop of \<open>checkExpiredDevices\<close>: an expired entry is appended to \<open>expired\<close> and erased, and
  the index stays where it is (\<open>i--\<close> before the \<open>i++\<close>).
\<close>

definition is_expired :: "int \<Rightarrow> DiscoveredDevice \<Rightarrow> bool" where
  "is_expired now d \<longleftrightarrow> dd_last_seen d + WAIT_TIME < now"

function expire_loop ::
  "int \<Rightarrow> nat \<Rightarrow> DiscoveredDevice list \<Rightarrow> DiscoveredDevice list
     \<Rightarrow> DiscoveredDevice list \<times> DiscoveredDevice list" where
  "expire_loop now i devices expired =
     (if i < length devices then
        if is_expired now (devices ! i)
        then expire_loop now i (take i devices @ drop (Suc i) devices) (expired @ [devices ! i])
        else expire_loop now (Suc i) devices expired
      else (devices, expired))"
  by pat_completeness auto
termination
  by (relation "measure (\<lambda>(now, i, devices, expired). length devices - i)") auto

declare expire_loop.simps [simp del]

definition checkExpiredDevices ::
  "udp_env \<Rightarrow> DiscoveryService \<Rightarrow> DiscoveryService \<times> discovery_effect list" where
  "checkExpiredDevices env st =
     (let (devices, expired) = expire_loop (env_now env) 0 (ds_discoveredDevices st) []
      in (st\<lparr>ds_discoveredDevices := devices\<rparr>, map OnDeviceLeft expired))"

text \<open>The completion handler of the timer.\<close>

definition on_timer ::
  "udp_env \<Rightarrow> DiscoveryService \<Rightarrow> ec \<Rightarrow> DiscoveryService \<times> discovery_effect list" where
  "on_timer env st ec =
     (if ec \<noteq> None then (st, [])
      else let (st', left) = checkExpiredDevices env st
           in (st', sendBroadcast env st @ left @ startTimer))"

text \<open>
  The search loop over \<open>discoveredDevices\<close> by name: the first match gets a new \<open>last_seen\<close>
  (\<open>Some\<close> of the updated list), no match is \<open>None\<close>.
\<close>

fun touch_device ::
  "bytes \<Rightarrow> int \<Rightarrow> DiscoveredDevice list \<Rightarrow> DiscoveredDevice list option" where
  "touch_device nm now [] = None"
| "touch_device nm now (d # ds) =
     (if dd_name d = nm then Some (d\<lparr>dd_last_seen := now\<rparr> # ds)
      else map_option ((#) d) (touch_device nm now ds))"

definition note_device ::
  "udp_env \<Rightarrow> u32 \<Rightarrow> DiscoveryPayload \<Rightarrow> DiscoveryService
     \<Rightarrow> DiscoveryService \<times> discovery_effect list" where
  "note_device env sender dp st =
     (case touch_device (dp_device_name dp) (env_now env) (ds_discoveredDevices st) of
        Some devices \<Rightarrow> (st\<lparr>ds_discoveredDevices := devices\<rparr>, [])
      | None \<Rightarrow>
          let dd = \<lparr>dd_name = dp_device_name dp, dd_ip = env_to_string env sender,
                    dd_tcp_port = dp_tcp_port dp, dd_last_seen = env_now env\<rparr>
          in (st\<lparr>ds_discoveredDevices := ds_discoveredDevices st @ [dd]\<rparr>, [OnDeviceFound dd]))"

text \<open>
  The completion handler of \<open>async_receive_from\<close>. Before it runs, Asio has stored the datagram
  (cut to the size of the buffer) at the start of \<open>buffer_incoming\<close>.
\<close>

definition store_datagram :: "bytes \<Rightarrow> DiscoveryService \<Rightarrow> DiscoveryService" where
  "store_datagram pkt st =
     st\<lparr>ds_buffer_incoming := overwrite 0 (take BUFFER_MAX_SIZE pkt) (ds_buffer_incoming st)\<rparr>"

definition handle_broadcast ::
  "udp_env \<Rightarrow> DiscoveryService \<Rightarrow> u32 \<Rightarrow> BaseHeader
     \<Rightarrow> (DiscoveryService \<times> discovery_effect list) run" where
  "handle_broadcast env st sender base =
     andThen (deserializeDiscovery (drop HEADER_SIZE (ds_buffer_incoming st))
                (unat (payload_len base)) None) (\<lambda>(ok, dp).
     if \<not> ok then Inr (st, listenForPackages)
     else andThen (initialised dp) (\<lambda>dp.
     if dp_device_name dp = ds_device_name st then Inr (st, listenForPackages)
     else let (st', found) = note_device env sender dp st;
              message = frame DISCOVERY_REPLY 0 (own_payload st')
          in if env_send_ok env
             then Inr (st', found @ [SendTo sender UDP_DISCOVERY_PORT message] @ listenForPackages)
             else Inl Uncaught))"

definition handle_reply ::
  "udp_env \<Rightarrow> DiscoveryService \<Rightarrow> u32 \<Rightarrow> BaseHeader
     \<Rightarrow> (DiscoveryService \<times> discovery_effect list) run" where
  "handle_reply env st sender base =
     andThen (deserializeDiscovery (drop HEADER_SIZE (ds_buffer_incoming st))
                (unat (payload_len base)) None) (\<lambda>(ok, dp).
     if \<not> ok then Inr (st, listenForPackages)
     else andThen (initialised dp) (\<lambda>dp.
     if dp_device_name dp = ds_device_name st then Inr (st, listenForPackages)
     else let (st', found) = note_device env sender dp st
          in Inr (st', found @ listenForPackages)))"

definition on_package ::
  "udp_env \<Rightarrow> DiscoveryService \<Rightarrow> ec \<Rightarrow> u32 \<Rightarrow> bytes
     \<Rightarrow> (DiscoveryService \<times> discovery_effect list) run" where
  "on_package env st ec sender pkt =
     (if ec \<noteq> None then Inr (st, listenForPackages)
      else
        let st = store_datagram pkt st in
        case env_local env of
          None \<Rightarrow> Inl Uncaught
        | Some self \<Rightarrow>
            if sender = self then Inr (st, listenForPackages)
            else
              andThen (deserializeHeader (ds_buffer_incoming st) None) (\<lambda>(ok, base).
              if \<not> ok then Inr (st, listenForPackages)
              else andThen (initialised base) (\<lambda>base.
              if msg_type base = DISCOVERY_BROADCAST then handle_broadcast env st sender base
              else if msg_type base = DISCOVERY_REPLY then handle_reply env st sender base
              else Inr (st, listenForPackages))))"

text \<open>
  \<open>start\<close> returns \<open>false\<close> at the first call that throws; \<open>stop\<close> closes the socket and cancels the
  timer.
\<close>

definition startDiscovery ::
  "udp_env \<Rightarrow> DiscoveryService \<Rightarrow> bool \<times> DiscoveryService \<times> discovery_effect list" where
  "startDiscovery env st =
     (if \<not> env_open_ok env then (False, st, [])
      else
        let st = st\<lparr>ds_socket_open := True\<rparr> in
        if \<not> env_option_ok env then (False, st, [])
        else if \<not> env_bind_ok env then (False, st, [])
        else (True, st, listenForPackages @ sendBroadcast env st @ startTimer))"

definition stopDiscovery ::
  "udp_env \<Rightarrow> DiscoveryService \<Rightarrow> bool \<times> DiscoveryService \<times> discovery_effect list" where
  "stopDiscovery env st =
     (if \<not> env_close_ok env then (False, st, [])
      else (True, st\<lparr>ds_socket_open := False\<rparr>, [CancelTimer]))"

section \<open>The device table\<close>

text \<open>
  What the rest of the service expects of the table, independent of the vector that holds it:
  hearing a device inserts it or refreshes its time and nothing else, expiry drops exactly the
  entries that are too old. An entry is an address, a port and the time it was last seen.
\<close>

type_synonym table_entry = "bytes \<times> u16 \<times> int"

datatype table_event = Heard bytes bytes u16 int | Expire int

fun event_time :: "table_event \<Rightarrow> int" where
  "event_time (Heard _ _ _ now) = now"
| "event_time (Expire now) = now"

fun apply_event ::
  "(bytes \<Rightarrow> bytes \<Rightarrow> u16 \<Rightarrow> int \<Rightarrow> 't \<Rightarrow> 't) \<Rightarrow> (int \<Rightarrow> 't \<Rightarrow> 't) \<Rightarrow> table_event \<Rightarrow> 't \<Rightarrow> 't" where
  "apply_event hear expire (Heard nm ip port now) t = hear nm ip port now t"
| "apply_event hear expire (Expire now) t = expire now t"

locale device_table =
  fixes hear :: "bytes \<Rightarrow> bytes \<Rightarrow> u16 \<Rightarrow> int \<Rightarrow> 't \<Rightarrow> 't"
    and expire :: "int \<Rightarrow> 't \<Rightarrow> 't"
    and lookup :: "'t \<Rightarrow> bytes \<Rightarrow> table_entry option"
    and inv :: "'t \<Rightarrow> bool"
  assumes inv_hear: "inv t \<Longrightarrow> inv (hear nm ip port now t)"
    and inv_expire: "inv t \<Longrightarrow> inv (expire now t)"
    and lookup_hear: "inv t \<Longrightarrow> lookup (hear nm ip port now t) =
      (lookup t)(nm \<mapsto> (case lookup t nm of None \<Rightarrow> (ip, port, now)
                        | Some (ip0, port0, _) \<Rightarrow> (ip0, port0, now)))"
    and lookup_expire: "inv t \<Longrightarrow> lookup (expire now t) k =
      (case lookup t k of None \<Rightarrow> None
       | Some (ip, port, seen) \<Rightarrow> if seen + WAIT_TIME < now then None else Some (ip, port, seen))"
begin

lemma inv_apply_event: "inv t \<Longrightarrow> inv (apply_event hear expire e t)"
  by (cases e) (auto intro: inv_hear inv_expire)

text \<open>
  A device stays in the table, with the address and port it was first seen under, as long as no
  expiry check runs more than \<open>WAIT_TIME\<close> after the last announcement heard from it.
\<close>

lemma entry_survives_event:
  assumes "inv t" and "lookup t k = Some (ip, port, seen)"
    and "seen \<le> event_time e" and "\<forall>now. e = Expire now \<longrightarrow> now \<le> seen + WAIT_TIME"
  shows "lookup (apply_event hear expire e t) k = Some (ip, port, seen)
    \<or> lookup (apply_event hear expire e t) k = Some (ip, port, event_time e)"
  using assms by (cases e) (auto simp: lookup_hear lookup_expire)

lemma entry_survives:
  assumes "inv t" and "lookup t k = Some (ip, port, seen)"
    and "\<forall>e \<in> set es. seen \<le> event_time e"
    and "\<forall>now. Expire now \<in> set es \<longrightarrow> now \<le> seen + WAIT_TIME"
    and "sorted (map event_time es)"
  shows "\<exists>seen' \<ge> seen. lookup (fold (apply_event hear expire) es t) k = Some (ip, port, seen')"
  using assms
proof (induction es arbitrary: t seen)
  case (Cons e es)
  have "seen \<le> event_time e" and "\<forall>now. e = Expire now \<longrightarrow> now \<le> seen + WAIT_TIME"
    using Cons.prems(3,4) by auto
  then obtain seen1 where s1: "seen1 = seen \<or> seen1 = event_time e"
      "lookup (apply_event hear expire e t) k = Some (ip, port, seen1)"
    using entry_survives_event [OF Cons.prems(1,2)] by blast
  have le: "seen \<le> seen1" using s1(1) Cons.prems(3) by auto
  have "\<exists>seen' \<ge> seen1.
      lookup (fold (apply_event hear expire) es (apply_event hear expire e t)) k = Some (ip, port, seen')"
  proof (rule Cons.IH [OF _ s1(2)])
    show "\<forall>e' \<in> set es. seen1 \<le> event_time e'" using s1(1) Cons.prems(3,5) by auto
    show "\<forall>now. Expire now \<in> set es \<longrightarrow> now \<le> seen1 + WAIT_TIME" using Cons.prems(4) le by auto
  qed (use Cons.prems in \<open>auto intro: inv_apply_event\<close>)
  with le show ?case by (auto intro: order_trans)
qed simp

end

text \<open>The vector as such a table.\<close>

definition hear_device ::
  "bytes \<Rightarrow> bytes \<Rightarrow> u16 \<Rightarrow> int \<Rightarrow> DiscoveredDevice list \<Rightarrow> DiscoveredDevice list" where
  "hear_device nm ip port now devices =
     (case touch_device nm now devices of Some devices' \<Rightarrow> devices'
      | None \<Rightarrow> devices @ [\<lparr>dd_name = nm, dd_ip = ip, dd_tcp_port = port, dd_last_seen = now\<rparr>])"

definition expire_devices :: "int \<Rightarrow> DiscoveredDevice list \<Rightarrow> DiscoveredDevice list" where
  "expire_devices now devices = fst (expire_loop now 0 devices [])"

definition lookup_device :: "DiscoveredDevice list \<Rightarrow> bytes \<Rightarrow> table_entry option" where
  "lookup_device devices =
     map_of (map (\<lambda>d. (dd_name d, (dd_ip d, dd_tcp_port d, dd_last_seen d))) devices)"

definition distinct_names :: "DiscoveredDevice list \<Rightarrow> bool" where
  "distinct_names devices \<longleftrightarrow> distinct (map dd_name devices)"

lemma expire_loop_filter:
  "i \<le> length devices \<Longrightarrow> expire_loop now i devices expired =
     (take i devices @ filter (\<lambda>d. \<not> is_expired now d) (drop i devices),
      expired @ filter (is_expired now) (drop i devices))"
proof (induction now i devices expired rule: expire_loop.induct)
  case (1 now i devices expired)
  show ?case
  proof (cases "i < length devices")
    case True
    then have d: "drop i devices = devices ! i # drop (Suc i) devices"
      by (rule Cons_nth_drop_Suc [symmetric])
    have t: "take i (take i devices @ drop (Suc i) devices) = take i devices"
      "drop i (take i devices @ drop (Suc i) devices) = drop (Suc i) devices"
      using True by simp_all
    show ?thesis
    proof (cases "is_expired now (devices ! i)")
      case e: True
      have "i \<le> length (take i devices @ drop (Suc i) devices)" using True by simp
      with 1(1) [OF True e] True e show ?thesis
        by (subst expire_loop.simps) (simp only: t, simp add: d)
    next
      case e: False
      with 1(2) [OF True e] True show ?thesis
        by (subst expire_loop.simps) (simp add: d take_Suc_conv_app_nth)
    qed
  next
    case False
    with "1.prems" show ?thesis by (simp add: expire_loop.simps)
  qed
qed

lemma expire_devices_filter: "expire_devices now devices = filter (\<lambda>d. \<not> is_expired now d) devices"
  by (simp add: expire_devices_def expire_loop_filter)

lemma touch_device_None: "touch_device nm now devices = None \<longleftrightarrow> nm \<notin> dd_name ` set devices"
  by (induction devices) auto

lemma touch_device_Some:
  "touch_device nm now devices = Some devices' \<Longrightarrow>
     nm \<in> dd_name ` set devices
     \<and> map (\<lambda>d. (dd_name d, dd_ip d, dd_tcp_port d)) devices'
       = map (\<lambda>d. (dd_name d, dd_ip d, dd_tcp_port d)) devices
     \<and> lookup_device devices' = (lookup_device devices)(nm \<mapsto>
         (case lookup_device devices nm of Some (ip, port, _) \<Rightarrow> (ip, port, now)))"
proof (induction devices arbitrary: devices')
  case (Cons d ds)
  show ?case
  proof (cases "dd_name d = nm")
    case True
    with Cons.prems show ?thesis by (auto simp: lookup_device_def)
  next
    case False
    with Cons.prems obtain ds' where "touch_device nm now ds = Some ds'" "devices' = d # ds'"
      by auto
    with Cons.IH [of ds'] False show ?thesis by (auto simp: lookup_device_def)
  qed
qed simp

lemma map_names_eq:
  "map (\<lambda>d. (dd_name d, dd_ip d, dd_tcp_port d)) xs = map (\<lambda>d. (dd_name d, dd_ip d, dd_tcp_port d)) ys
   \<Longrightarrow> map dd_name xs = map dd_name ys"
  by (drule arg_cong [where f = "map fst"]) (simp add: comp_def)

lemma lookup_device_None: "lookup_device devices nm = None \<longleftrightarrow> nm \<notin> dd_name ` set devices"
  by (simp add: lookup_device_def map_of_eq_None_iff image_image)

lemma lookup_device_append_new:
  "nm \<notin> dd_name ` set devices \<Longrightarrow> dd_name d = nm \<Longrightarrow>
   lookup_device (devices @ [d]) = (lookup_device devices)(nm \<mapsto> (dd_ip d, dd_tcp_port d, dd_last_seen d))"
  by (induction devices) (auto simp: lookup_device_def)

lemma lookup_device_filter:
  "distinct_names devices \<Longrightarrow> lookup_device (filter P devices) k =
     (case find (\<lambda>d. dd_name d = k) devices of None \<Rightarrow> None
      | Some d \<Rightarrow> if P d then Some (dd_ip d, dd_tcp_port d, dd_last_seen d) else None)"
proof (induction devices)
  case (Cons d ds)
  have "lookup_device (filter P ds) k = None" if "dd_name d = k"
    using Cons.prems that by (auto simp: lookup_device_None distinct_names_def)
  with Cons show ?case
    by (cases "dd_name d = k") (auto simp: lookup_device_def distinct_names_def)
qed (simp add: lookup_device_def)

interpretation device_vector: device_table hear_device expire_devices lookup_device distinct_names
proof
  fix t nm ip port now
  assume inv: "distinct_names t"
  show "distinct_names (hear_device nm ip port now t)"
  proof (cases "touch_device nm now t")
    case None
    with inv touch_device_None [of nm now t] show ?thesis
      by (auto simp: hear_device_def distinct_names_def)
  next
    case (Some t')
    with inv map_names_eq [of t' t] touch_device_Some [OF Some] show ?thesis
      by (simp add: hear_device_def distinct_names_def)
  qed
  show "lookup_device (hear_device nm ip port now t) = (lookup_device t)
      (nm \<mapsto> (case lookup_device t nm of None \<Rightarrow> (ip, port, now) | Some (ip0, port0, _) \<Rightarrow> (ip0, port0, now)))"
  proof (cases "touch_device nm now t")
    case None
    then have "nm \<notin> dd_name ` set t" by (simp add: touch_device_None)
    with None show ?thesis
      by (simp add: hear_device_def lookup_device_append_new lookup_device_None [THEN iffD2])
  next
    case (Some t')
    with touch_device_Some [OF Some] have "lookup_device t nm \<noteq> None"
      by (simp add: lookup_device_None)
    with Some touch_device_Some [OF Some] show ?thesis
      by (auto simp: hear_device_def split: option.splits)
  qed
next
  fix t now
  assume inv: "distinct_names t"
  show "distinct_names (expire_devices now t)"
    using inv by (auto simp: expire_devices_filter distinct_names_def intro: distinct_map_filter)
  fix k
  show "lookup_device (expire_devices now t) k = (case lookup_device t k of None \<Rightarrow> None
      | Some (ip, port, seen) \<Rightarrow> if seen + WAIT_TIME < now then None else Some (ip, port, seen))"
    using lookup_device_filter [OF inv, of "\<lambda>_. True" k]
      lookup_device_filter [OF inv, of "\<lambda>d. \<not> is_expired now d" k]
    by (simp add: expire_devices_filter is_expired_def split: option.splits)
qed

end
