(* ===== verification/Discovery_System.thy ===== *)
theory Discovery_System
  imports Discovery
begin

text \<open>
  The discovery service as it runs: its handlers are called by completions of the outstanding
  receive and timer operations, in any order and with any datagram, sender, clock and error
  code, and its two setters may be called in between. The invariant of all executions ties the
  table to the callbacks made so far. The theory also states what two services that exchange
  announcements know of each other, and where the handler reads outside its buffer.
\<close>

section \<open>Executions\<close>

record discovery_sys =
  sys_service :: DiscoveryService
  sys_receives :: nat
  sys_waits :: nat
  sys_history :: "discovery_effect list"

definition absorb :: "discovery_effect list \<Rightarrow> discovery_sys \<Rightarrow> discovery_sys" where
  "absorb fx s =
     s\<lparr>sys_receives := sys_receives s + length (filter (\<lambda>e. e = AsyncReceive) fx),
       sys_waits := sys_waits s + length (filter (\<lambda>e. e = AsyncWait SEARCH_LOOP) fx),
       sys_history := sys_history s @ fx\<rparr>"

definition discovery_init :: "discovery_sys \<Rightarrow> bool" where
  "discovery_init s \<longleftrightarrow> (\<exists>env nm port garbage st fx. length garbage = BUFFER_MAX_SIZE
     \<and> startDiscovery env (newDiscoveryService nm port garbage) = (True, st, fx)
     \<and> s = absorb fx \<lparr>sys_service = st, sys_receives = 0, sys_waits = 0, sys_history = []\<rparr>)"

inductive discovery_step :: "discovery_sys \<Rightarrow> discovery_sys \<Rightarrow> bool" where
  package: "0 < sys_receives s \<Longrightarrow>
    on_package env (sys_service s) ec sender pkt = Inr (st, fx) \<Longrightarrow>
    discovery_step s (absorb fx (s\<lparr>sys_service := st, sys_receives := sys_receives s - 1\<rparr>))"
| timer: "0 < sys_waits s \<Longrightarrow> on_timer env (sys_service s) ec = (st, fx) \<Longrightarrow>
    discovery_step s (absorb fx (s\<lparr>sys_service := st, sys_waits := sys_waits s - 1\<rparr>))"
| rename: "discovery_step s (s\<lparr>sys_service := setDeviceName nm (sys_service s)\<rparr>)"
| set_port: "discovery_step s (s\<lparr>sys_service := setTcpPort port (sys_service s)\<rparr>)"

text \<open>
  What a listener learns from the callbacks alone: a list of name, address and port, extended
  by every \<open>onDeviceFound\<close> and shortened by every \<open>onDeviceLeft\<close>.
\<close>

definition device_key :: "DiscoveredDevice \<Rightarrow> bytes \<times> bytes \<times> u16" where
  "device_key d = (dd_name d, dd_ip d, dd_tcp_port d)"

fun listen :: "(bytes \<times> bytes \<times> u16) list \<Rightarrow> discovery_effect \<Rightarrow> (bytes \<times> bytes \<times> u16) list" where
  "listen xs (OnDeviceFound d) = xs @ [device_key d]"
| "listen xs (OnDeviceLeft d) = filter (\<lambda>k. k \<noteq> device_key d) xs"
| "listen xs _ = xs"

definition discovery_inv :: "discovery_sys \<Rightarrow> bool" where
  "discovery_inv s \<longleftrightarrow>
     distinct_names (ds_discoveredDevices (sys_service s))
     \<and> length (ds_buffer_incoming (sys_service s)) = BUFFER_MAX_SIZE
     \<and> sys_receives s = 1 \<and> sys_waits s \<le> 1
     \<and> map device_key (ds_discoveredDevices (sys_service s)) = foldl listen [] (sys_history s)"

section \<open>Lemmas on the handlers\<close>

lemma device_key_eq: "device_key = (\<lambda>d. (dd_name d, dd_ip d, dd_tcp_port d))"
  by (rule ext) (rule device_key_def)

lemma device_key_inject_names:
  "distinct_names ds \<Longrightarrow> d \<in> set ds \<Longrightarrow> d' \<in> set ds \<Longrightarrow> device_key d = device_key d' \<Longrightarrow> d = d'"
  by (auto simp: device_key_def distinct_names_def distinct_map inj_on_def)

lemma map_device_key_names: "map dd_name ds = map fst (map device_key ds)"
  by (simp add: device_key_def comp_def)

lemma note_device_cases:
  assumes "note_device env sender dp st = (st', fx)"
  shows "st' = st\<lparr>ds_discoveredDevices := hear_device (dp_device_name dp) (env_to_string env sender)
      (dp_tcp_port dp) (env_now env) (ds_discoveredDevices st)\<rparr>"
    and "foldl listen (map device_key (ds_discoveredDevices st)) fx
      = map device_key (ds_discoveredDevices st')"
    and "fx = [] \<or> (\<exists>dd. fx = [OnDeviceFound dd])"
  using assms
  by (auto simp: note_device_def hear_device_def device_key_eq Let_def
      split: option.splits dest!: touch_device_Some)

lemma foldl_listen_left:
  "foldl listen xs (map OnDeviceLeft es) = filter (\<lambda>k. k \<notin> device_key ` set es) xs"
  by (induction es arbitrary: xs) (auto simp: conj_commute intro: filter_cong)

lemma checkExpiredDevices_alt:
  "checkExpiredDevices env st =
     (st\<lparr>ds_discoveredDevices := expire_devices (env_now env) (ds_discoveredDevices st)\<rparr>,
      map OnDeviceLeft (filter (is_expired (env_now env)) (ds_discoveredDevices st)))"
  by (simp add: checkExpiredDevices_def expire_devices_def expire_loop_filter)

lemma listen_expired:
  assumes "distinct_names ds"
  shows "foldl listen (map device_key ds) (map OnDeviceLeft (filter (is_expired now) ds))
    = map device_key (expire_devices now ds)"
proof -
  have "filter (\<lambda>k. k \<notin> device_key ` set (filter (is_expired now) ds)) (map device_key ds)
      = map device_key (filter (\<lambda>d. \<not> is_expired now d) ds)"
    unfolding filter_map comp_def
    by (rule arg_cong [where f = "map device_key"], rule filter_cong [OF refl])
      (use device_key_inject_names [OF assms] in auto)
  then show ?thesis by (simp add: foldl_listen_left expire_devices_filter)
qed

lemma foldl_listen_sends:
  "foldl listen xs [SendTo a p m] = xs" "foldl listen xs listenForPackages = xs"
  "foldl listen xs startTimer = xs" "foldl listen xs (sendBroadcast env st) = xs"
  by (simp_all add: listenForPackages_def startTimer_def sendBroadcast_def Let_def)

text \<open>
  Every regular outcome of the datagram handler is one of three: nothing learned, a device
  noted, or a device noted and a reply sent. Each ends by listening again.
\<close>

definition noted ::
  "udp_env \<Rightarrow> u32 \<Rightarrow> DiscoveryService \<Rightarrow> DiscoveryService \<Rightarrow> discovery_effect list \<Rightarrow> bool" where
  "noted env sender st st' fx \<longleftrightarrow> (\<exists>dp found extra.
     note_device env sender dp st = (st', found) \<and> fx = found @ extra @ listenForPackages
     \<and> (extra = [] \<or> (\<exists>a p m. extra = [SendTo a p m])) \<and> dp_device_name dp \<noteq> ds_device_name st)"

lemma notedI:
  assumes "note_device env sender dp st = (st', found)" and "dp_device_name dp \<noteq> ds_device_name st"
    and "fx = found @ listenForPackages \<or> fx = found @ [SendTo a p m] @ listenForPackages"
  shows "noted env sender st st' fx"
proof -
  from assms(3) obtain extra where "fx = found @ extra @ listenForPackages"
    and "extra = [] \<or> (\<exists>a p m. extra = [SendTo a p m])" by (metis append_Nil)
  with assms(1,2) show ?thesis unfolding noted_def by blast
qed

lemma handle_broadcast_cases:
  assumes "handle_broadcast env st sender base = Inr (st', fx)"
  shows "st' = st \<and> fx = listenForPackages \<or> noted env sender st st' fx"
proof -
  obtain ok dp where d: "deserializeDiscovery (drop HEADER_SIZE (ds_buffer_incoming st))
      (unat (payload_len base)) None = Inr (ok, dp)"
    using assms by (auto simp: handle_broadcast_def andThen_eq_Inr)
  show ?thesis
  proof (cases "ok \<and> dp \<noteq> None \<and> dp_device_name (the dp) \<noteq> ds_device_name st")
    case True
    then obtain p where p: "dp = Some p" by auto
    obtain st1 found where n: "note_device env sender p st = (st1, found)" by fastforce
    with assms d p True
    have "st' = st1" and "fx = found @ [SendTo sender UDP_DISCOVERY_PORT
        (frame DISCOVERY_REPLY 0 (own_payload st1))] @ listenForPackages"
      by (auto simp: handle_broadcast_def split: if_splits)
    with n p True show ?thesis by (auto intro: notedI)
  next
    case False
    with assms d show ?thesis by (cases dp) (auto simp: handle_broadcast_def split: if_splits)
  qed
qed

lemma handle_reply_cases:
  assumes "handle_reply env st sender base = Inr (st', fx)"
  shows "st' = st \<and> fx = listenForPackages \<or> noted env sender st st' fx"
proof -
  obtain ok dp where d: "deserializeDiscovery (drop HEADER_SIZE (ds_buffer_incoming st))
      (unat (payload_len base)) None = Inr (ok, dp)"
    using assms by (auto simp: handle_reply_def andThen_eq_Inr)
  show ?thesis
  proof (cases "ok \<and> dp \<noteq> None \<and> dp_device_name (the dp) \<noteq> ds_device_name st")
    case True
    then obtain p where p: "dp = Some p" by auto
    obtain st1 found where n: "note_device env sender p st = (st1, found)" by fastforce
    with assms d p True have "st' = st1" and "fx = found @ listenForPackages"
      by (simp_all add: handle_reply_def)
    with n p True show ?thesis by (auto intro: notedI)
  next
    case False
    with assms d show ?thesis by (cases dp) (auto simp: handle_reply_def split: if_splits)
  qed
qed

lemma on_package_cases:
  assumes "on_package env st ec sender pkt = Inr (st', fx)"
  shows "(st' = st \<or> st' = store_datagram pkt st) \<and> fx = listenForPackages
    \<or> noted env sender (store_datagram pkt st) st' fx"
  using assms
  by (auto simp: on_package_def Let_def andThen_eq_Inr split: if_splits option.splits
      dest: handle_broadcast_cases handle_reply_cases)

lemma length_store_datagram:
  "length (ds_buffer_incoming st) = BUFFER_MAX_SIZE \<Longrightarrow>
   length (ds_buffer_incoming (store_datagram pkt st)) = BUFFER_MAX_SIZE"
  by (simp add: store_datagram_def)

lemma store_datagram_simps [simp]:
  "ds_discoveredDevices (store_datagram pkt st) = ds_discoveredDevices st"
  "ds_device_name (store_datagram pkt st) = ds_device_name st"
  "ds_tcp_port (store_datagram pkt st) = ds_tcp_port st"
  by (simp_all add: store_datagram_def)

section \<open>The invariant\<close>

lemma absorb_simps [simp]:
  "sys_service (absorb fx s) = sys_service s"
  "sys_receives (absorb fx s) = sys_receives s + length (filter (\<lambda>e. e = AsyncReceive) fx)"
  "sys_waits (absorb fx s) = sys_waits s + length (filter (\<lambda>e. e = AsyncWait SEARCH_LOOP) fx)"
  "sys_history (absorb fx s) = sys_history s @ fx"
  by (simp_all add: absorb_def)

lemma discovery_inv_init:
  assumes "discovery_init s"
  shows "discovery_inv s"
  using assms
  by (auto simp: discovery_init_def discovery_inv_def startDiscovery_def newDiscoveryService_def
      distinct_names_def listenForPackages_def sendBroadcast_def startTimer_def Let_def
      split: if_splits)

lemma noted_service:
  assumes "noted env sender st st' fx" and "distinct_names (ds_discoveredDevices st)"
  shows "distinct_names (ds_discoveredDevices st')" and "ds_buffer_incoming st' = ds_buffer_incoming st"
    and "foldl listen (map device_key (ds_discoveredDevices st)) fx
      = map device_key (ds_discoveredDevices st')"
    and "length (filter (\<lambda>e. e = AsyncReceive) fx) = 1"
    and "filter (\<lambda>e. e = AsyncWait SEARCH_LOOP) fx = []"
proof -
  obtain dp found extra where n: "note_device env sender dp st = (st', found)"
    and fx: "fx = found @ extra @ listenForPackages"
    and ex: "extra = [] \<or> (\<exists>a p m. extra = [SendTo a p m])"
    using assms(1) unfolding noted_def by blast
  from note_device_cases(1) [OF n]
  show "distinct_names (ds_discoveredDevices st')" "ds_buffer_incoming st' = ds_buffer_incoming st"
    using device_vector.inv_hear [OF assms(2)] by simp_all
  show "foldl listen (map device_key (ds_discoveredDevices st)) fx
      = map device_key (ds_discoveredDevices st')"
    using note_device_cases(2) [OF n] ex by (auto simp: fx foldl_listen_sends)
  show "length (filter (\<lambda>e. e = AsyncReceive) fx) = 1"
    "filter (\<lambda>e. e = AsyncWait SEARCH_LOOP) fx = []"
    using note_device_cases(3) [OF n] ex by (auto simp: fx listenForPackages_def)
qed

lemma discovery_inv_package:
  assumes inv: "discovery_inv s" and "on_package env (sys_service s) ec sender pkt = Inr (st, fx)"
  shows "discovery_inv (absorb fx (s\<lparr>sys_service := st, sys_receives := sys_receives s - 1\<rparr>))"
proof -
  let ?st = "store_datagram pkt (sys_service s)"
  from on_package_cases [OF assms(2)] consider
    (quiet) "st = sys_service s \<or> st = ?st" "fx = listenForPackages" | (learned) "noted env sender ?st st fx"
    by blast
  then show ?thesis
  proof cases
    case quiet
    with inv show ?thesis
      by (auto simp: discovery_inv_def listenForPackages_def length_store_datagram)
  next
    case learned
    with inv noted_service [OF learned] show ?thesis
      by (simp add: discovery_inv_def length_store_datagram)
  qed
qed

lemma discovery_inv_timer:
  assumes inv: "discovery_inv s" and "0 < sys_waits s" and "on_timer env (sys_service s) ec = (st, fx)"
  shows "discovery_inv (absorb fx (s\<lparr>sys_service := st, sys_waits := sys_waits s - 1\<rparr>))"
proof (cases ec)
  case None
  let ?ds = "ds_discoveredDevices (sys_service s)"
  have st: "st = (sys_service s)\<lparr>ds_discoveredDevices := expire_devices (env_now env) ?ds\<rparr>"
    and fx: "fx = sendBroadcast env (sys_service s)
      @ map OnDeviceLeft (filter (is_expired (env_now env)) ?ds) @ startTimer"
    using assms(3) None by (auto simp: on_timer_def checkExpiredDevices_alt)
  have "filter (\<lambda>e. e = AsyncReceive) fx = []"
    and "length (filter (\<lambda>e. e = AsyncWait SEARCH_LOOP) fx) = 1"
    by (auto simp: fx sendBroadcast_def startTimer_def Let_def filter_empty_conv)
  then show ?thesis
    using inv assms(2) listen_expired [of ?ds] device_vector.inv_expire [of ?ds]
    by (simp add: discovery_inv_def st) (simp add: fx foldl_listen_sends)
next
  case (Some e)
  with assms show ?thesis by (auto simp: on_timer_def discovery_inv_def)
qed

lemma discovery_inv_setters:
  "discovery_inv s \<Longrightarrow> discovery_inv (s\<lparr>sys_service := setDeviceName nm (sys_service s)\<rparr>)"
  "discovery_inv s \<Longrightarrow> discovery_inv (s\<lparr>sys_service := setTcpPort port (sys_service s)\<rparr>)"
  by (simp_all add: discovery_inv_def setDeviceName_def setTcpPort_def)

lemma discovery_inv_step:
  assumes "discovery_inv s" and "discovery_step s t"
  shows "discovery_inv t"
  using assms(2,1)
  by cases (simp_all only: discovery_inv_package discovery_inv_timer discovery_inv_setters)

interpretation discovery_machine: state_machine discovery_init discovery_step discovery_inv
  by unfold_locales (rule discovery_inv_init discovery_inv_step, assumption+)+

section \<open>Announcements\<close>

lemma length_own_payload:
  "length (ds_device_name st) < 65536 \<Longrightarrow> length (own_payload st) = 4 + length (ds_device_name st)"
  by (simp add: own_payload_def serializeDiscovery_def Let_def unat_of_nat_16)

lemma sendBroadcast_frame:
  "sendBroadcast env st = (if env_send_ok env
     then [SendTo 0xFFFFFFFF UDP_DISCOVERY_PORT (frame DISCOVERY_BROADCAST 0 (own_payload st))] else [])"
  by (simp add: sendBroadcast_def frame_def buildHeader_def Let_def)

text \<open>What a service does with the announcement of another service.\<close>

lemma on_package_announcement:
  assumes len: "length (ds_device_name a) \<le> 486"
    and buf: "length (ds_buffer_incoming b) = BUFFER_MAX_SIZE"
    and env: "env_local env = Some self" "sender \<noteq> self" "env_send_ok env"
    and names: "ds_device_name a \<noteq> ds_device_name b"
    and kind: "t = DISCOVERY_BROADCAST \<or> t = DISCOVERY_REPLY"
  shows "\<exists>b' found. note_device env sender \<lparr>dp_device_name = ds_device_name a, dp_tcp_port = ds_tcp_port a\<rparr>
        (store_datagram (frame t 0 (own_payload a)) b) = (b', found)
    \<and> on_package env b None sender (frame t 0 (own_payload a)) = Inr (b', found
        @ (if t = DISCOVERY_BROADCAST
           then [SendTo sender UDP_DISCOVERY_PORT (frame DISCOVERY_REPLY 0 (own_payload b'))] else [])
        @ listenForPackages)"
proof -
  let ?p = "\<lparr>dp_device_name = ds_device_name a, dp_tcp_port = ds_tcp_port a\<rparr>"
  let ?m = "frame t 0 (own_payload a)"
  let ?b = "store_datagram ?m b"
  have lp: "length (own_payload a) = 4 + length (ds_device_name a)"
    using len by (simp add: length_own_payload)
  then have lm: "length ?m \<le> BUFFER_MAX_SIZE" using len by simp
  then have b: "ds_buffer_incoming ?b = ?m @ drop (length ?m) (ds_buffer_incoming b)"
    by (simp add: store_datagram_def overwrite_0)
  have plen: "unat (of_nat (length (own_payload a)) :: u32) = length (own_payload a)"
    using lp len by (intro unat_of_nat_32) simp
  have d: "deserializeDiscovery (own_payload a @ rest) (length (own_payload a)) None = Inr (True, Some ?p)"
    for rest
    unfolding own_payload_def using len by (intro discovery_codec.deser_ser) (simp add: wf_discovery_def)
  have dd: "deserializeDiscovery (drop HEADER_SIZE (ds_buffer_incoming ?b)) (length (own_payload a)) None
      = Inr (True, Some ?p)"
    unfolding b drop_frame by (rule d)
  obtain b' found where n: "note_device env sender ?p ?b = (b', found)" by fastforce
  have "DISCOVERY_BROADCAST \<noteq> DISCOVERY_REPLY" by (simp add: MessageType_defs)
  moreover have "deserializeHeader (ds_buffer_incoming ?b) None
      = Inr (True, Some ((buildHeader t 0 (of_nat (length (own_payload a))))
          \<lparr>header_crc := crc_of (buildHeader t 0 (of_nat (length (own_payload a))))\<rparr>))"
    unfolding b by (rule deserializeHeader_frame)
  ultimately show ?thesis
    using n env names kind dd unfolding on_package_def Let_def
    by (auto simp: handle_broadcast_def handle_reply_def plen Let_def)
qed

lemma note_device_lookup:
  assumes "note_device env sender dp st = (st', found)" and "distinct_names (ds_discoveredDevices st)"
  shows "lookup_device (ds_discoveredDevices st') = (lookup_device (ds_discoveredDevices st))
    (dp_device_name dp \<mapsto> (case lookup_device (ds_discoveredDevices st) (dp_device_name dp) of
        None \<Rightarrow> (env_to_string env sender, dp_tcp_port dp, env_now env)
      | Some (ip, port, _) \<Rightarrow> (ip, port, env_now env)))"
  using note_device_cases(1) [OF assms(1)] device_vector.lookup_hear [OF assms(2)] by simp

section \<open>Properties\<close>

text \<open>
  C9. In every execution of a started discovery service, whatever arrives from the network:
  device names are unique in the table, exactly one receive operation is outstanding (the
  service never stops listening and never listens twice), at most one timer runs, and the
  table is exactly what a listener reconstructs from the \<open>onDeviceFound\<close> and \<open>onDeviceLeft\<close>
  callbacks, in the same order.
\<close>

theorem discovery_execution_invariant:
  assumes "discovery_init s0" and "discovery_step\<^sup>*\<^sup>* s0 s"
  shows "distinct (map dd_name (getDevices (sys_service s)))
    \<and> sys_receives s = 1 \<and> sys_waits s \<le> 1
    \<and> map device_key (getDevices (sys_service s)) = foldl listen [] (sys_history s)"
  using discovery_machine.reachable_inv [OF assms]
  by (simp add: discovery_inv_def getDevices_def distinct_names_def)

definition quiet_env :: udp_env where
  "quiet_env = \<lparr>env_now = 0, env_local = Some 0, env_to_string = (\<lambda>_. [0x31]), env_send_ok = True,
     env_open_ok = True, env_option_ok = True, env_bind_ok = True, env_close_ok = True\<rparr>"

definition node_a :: DiscoveryService where
  "node_a = newDiscoveryService [0x61] 50001 (replicate 512 0)"

definition node_b :: DiscoveryService where
  "node_b = newDiscoveryService [0x62] 50002 (replicate 512 0)"

definition started_b :: discovery_sys where
  "started_b = (case startDiscovery quiet_env node_b of (_, st, fx) \<Rightarrow>
     absorb fx \<lparr>sys_service = st, sys_receives = 0, sys_waits = 0, sys_history = []\<rparr>)"

lemma started_b_init: "discovery_init started_b"
  unfolding discovery_init_def started_b_def node_b_def
  by (rule exI [of _ quiet_env], rule exI [of _ "[0x62]"], rule exI [of _ 50002],
      rule exI [of _ "replicate 512 0"])
    (auto simp: startDiscovery_def quiet_env_def Let_def)

abbreviation seen_a :: DiscoveredDevice where
  "seen_a \<equiv> \<lparr>dd_name = [0x61], dd_ip = [0x31], dd_tcp_port = 50001, dd_last_seen = 0\<rparr>"

text \<open>One step of a sample run: the reply of the other node arrives.\<close>

lemma sample_discovery_run:
  "\<exists>s. discovery_step\<^sup>*\<^sup>* started_b s \<and> getDevices (sys_service s) = [seen_a]
     \<and> (\<forall>d. OnDeviceFound d \<in> set (sys_history s) \<longrightarrow> d = seen_a)"
proof -
  let ?b = "sys_service started_b"
  have b: "?b = node_b\<lparr>ds_socket_open := True\<rparr>"
    by (simp add: started_b_def startDiscovery_def quiet_env_def Let_def)
  obtain b' found where n: "note_device quiet_env 7
      \<lparr>dp_device_name = ds_device_name node_a, dp_tcp_port = ds_tcp_port node_a\<rparr>
      (store_datagram (frame DISCOVERY_REPLY 0 (own_payload node_a)) ?b) = (b', found)"
    and p: "on_package quiet_env ?b None 7 (frame DISCOVERY_REPLY 0 (own_payload node_a))
      = Inr (b', found @ [] @ listenForPackages)"
    using on_package_announcement [of node_a ?b quiet_env 0 7 DISCOVERY_REPLY]
    by (auto simp: b node_a_def node_b_def newDiscoveryService_def quiet_env_def MessageType_defs)
  let ?s = "absorb (found @ [] @ listenForPackages)
    (started_b\<lparr>sys_service := b', sys_receives := sys_receives started_b - 1\<rparr>)"
  have "0 < sys_receives started_b"
    using discovery_inv_init [OF started_b_init] by (simp add: discovery_inv_def)
  then have r: "discovery_step\<^sup>*\<^sup>* started_b ?s"
    using p by (intro r_into_rtranclp discovery_step.package)
  have f: "b' = (store_datagram (frame DISCOVERY_REPLY 0 (own_payload node_a)) ?b)\<lparr>ds_discoveredDevices := [seen_a]\<rparr>"
    "found = [OnDeviceFound seen_a]"
    using n by (auto simp: note_device_def b node_a_def node_b_def Let_def newDiscoveryService_def quiet_env_def)
  have "\<forall>d. OnDeviceFound d \<in> set (sys_history ?s) \<longrightarrow> d = seen_a"
    by (auto simp: f(2) started_b_def startDiscovery_def quiet_env_def listenForPackages_def startTimer_def
        sendBroadcast_def Let_def)
  with r show ?thesis by (intro exI [of _ ?s]) (simp add: f(1) getDevices_def)
qed

theorem discovery_execution_invariant_witness:
  "\<exists>s. discovery_step\<^sup>*\<^sup>* started_b s \<and> sys_receives s = 1
     \<and> map device_key (getDevices (sys_service s)) = [([0x61], [0x31], 50001)]
     \<and> foldl listen [] (sys_history s) = [([0x61], [0x31], 50001)]"
proof -
  obtain s where s: "discovery_step\<^sup>*\<^sup>* started_b s" "getDevices (sys_service s) = [seen_a]"
    using sample_discovery_run by blast
  then show ?thesis
    using discovery_execution_invariant [OF started_b_init s(1)]
    by (intro exI [of _ s]) (auto simp: device_key_def)
qed

text \<open>
  C4. Two services find each other. Service \<open>a\<close> broadcasts; \<open>b\<close>, which has a different name and
  has not seen \<open>a\<close>, receives the datagram, enters \<open>a\<close> with its name, port and the sender's
  address, reports it and sends back a reply; when \<open>a\<close> receives that reply it enters \<open>b\<close> in the
  same way. Names of up to 486 bytes fit the 512-byte datagram.
\<close>

theorem mutual_discovery:
  assumes "length (ds_device_name a) \<le> 486" and "length (ds_device_name b) \<le> 486"
    and "ds_device_name a \<noteq> ds_device_name b"
    and "length (ds_buffer_incoming a) = BUFFER_MAX_SIZE" and "length (ds_buffer_incoming b) = BUFFER_MAX_SIZE"
    and "distinct_names (getDevices a)" and "distinct_names (getDevices b)"
    and "lookup_device (getDevices a) (ds_device_name b) = None"
    and "lookup_device (getDevices b) (ds_device_name a) = None"
    and "env_local ea = Some self_a" and "env_local eb = Some self_b"
    and "addr_a \<noteq> self_b" and "addr_b \<noteq> self_a" and "env_send_ok ea" and "env_send_ok eb"
  shows "\<exists>announce reply a' b' fxa fxb.
      sendBroadcast ea a = [SendTo 0xFFFFFFFF UDP_DISCOVERY_PORT announce]
    \<and> on_package eb b None addr_a announce = Inr (b', fxb)
    \<and> SendTo addr_a UDP_DISCOVERY_PORT reply \<in> set fxb
    \<and> lookup_device (getDevices b') (ds_device_name a)
        = Some (env_to_string eb addr_a, ds_tcp_port a, env_now eb)
    \<and> on_package ea a None addr_b reply = Inr (a', fxa)
    \<and> lookup_device (getDevices a') (ds_device_name b)
        = Some (env_to_string ea addr_b, ds_tcp_port b, env_now ea)"
proof -
  let ?p = "\<lambda>s. \<lparr>dp_device_name = ds_device_name s, dp_tcp_port = ds_tcp_port s\<rparr>"
  let ?m = "frame DISCOVERY_BROADCAST 0 (own_payload a)"
  obtain b' fb where nb: "note_device eb addr_a (?p a) (store_datagram ?m b) = (b', fb)"
    and pb: "on_package eb b None addr_a ?m = Inr (b', fb
      @ [SendTo addr_a UDP_DISCOVERY_PORT (frame DISCOVERY_REPLY 0 (own_payload b'))] @ listenForPackages)"
    using on_package_announcement [of a b eb self_b addr_a DISCOVERY_BROADCAST] assms by auto
  have ob: "own_payload b' = own_payload b"
    using note_device_cases(1) [OF nb] by (simp add: own_payload_def)
  let ?r = "frame DISCOVERY_REPLY 0 (own_payload b)"
  obtain a' fa where na: "note_device ea addr_b (?p b) (store_datagram ?r a) = (a', fa)"
    and pa: "\<exists>fx. on_package ea a None addr_b ?r = Inr (a', fx)"
    using on_package_announcement [of b a ea self_a addr_b DISCOVERY_REPLY] assms by metis
  have "lookup_device (getDevices b') (ds_device_name a)
      = Some (env_to_string eb addr_a, ds_tcp_port a, env_now eb)"
    using note_device_lookup [OF nb] assms by (simp add: getDevices_def)
  moreover have "lookup_device (getDevices a') (ds_device_name b)
      = Some (env_to_string ea addr_b, ds_tcp_port b, env_now ea)"
    using note_device_lookup [OF na] assms by (simp add: getDevices_def)
  ultimately show ?thesis
    using pa pb assms(14) unfolding sendBroadcast_frame ob
    by (intro exI [of _ ?m] exI [of _ ?r]) auto
qed

theorem mutual_discovery_witness:
  "\<exists>announce reply a' b' fxa fxb.
     sendBroadcast quiet_env node_a = [SendTo 0xFFFFFFFF UDP_DISCOVERY_PORT announce]
   \<and> on_package quiet_env node_b None 1 announce = Inr (b', fxb)
   \<and> SendTo 1 UDP_DISCOVERY_PORT reply \<in> set fxb
   \<and> lookup_device (getDevices b') [0x61] = Some ([0x31], 50001, 0)
   \<and> on_package quiet_env node_a None 2 reply = Inr (a', fxa)
   \<and> lookup_device (getDevices a') [0x62] = Some ([0x31], 50002, 0)"
  using mutual_discovery [of node_a node_b quiet_env 0 quiet_env 0 1 2]
  by (simp add: node_a_def node_b_def newDiscoveryService_def getDevices_def distinct_names_def
      lookup_device_def quiet_env_def)

text \<open>
  The index loop of \<open>checkExpiredDevices\<close>, which erases while it iterates, does what it means
  to: exactly the devices whose last announcement is more than \<open>WAIT_TIME\<close> (15 seconds) old are
  removed, the others keep their order, and every removed device is reported once, in order.
\<close>

lemma checkExpiredDevices_correct:
  "ds_discoveredDevices (fst (checkExpiredDevices env st))
     = filter (\<lambda>d. env_now env \<le> dd_last_seen d + WAIT_TIME) (ds_discoveredDevices st)
   \<and> snd (checkExpiredDevices env st)
     = map OnDeviceLeft (filter (\<lambda>d. dd_last_seen d + WAIT_TIME < env_now env) (ds_discoveredDevices st))"
proof -
  have "is_expired now = (\<lambda>d. dd_last_seen d + WAIT_TIME < now)" for now
    by (rule ext) (rule is_expired_def)
  then show ?thesis by (simp add: checkExpiredDevices_alt expire_devices_filter not_less)
qed

text \<open>
  C18. The vector of devices implements the abstract table. Handling an announcement updates the
  entry of the announced name and no other: a new name gets the sender's address, the announced
  port and the current time, a known name keeps its address and port and gets the current time.
  The timer's expiry check removes exactly the entries that are too old.
\<close>

theorem device_table_refinement:
  assumes "distinct_names (ds_discoveredDevices st)"
  shows "lookup_device (ds_discoveredDevices (fst (note_device env sender dp st)))
      = (lookup_device (ds_discoveredDevices st))(dp_device_name dp \<mapsto>
          (case lookup_device (ds_discoveredDevices st) (dp_device_name dp) of
             None \<Rightarrow> (env_to_string env sender, dp_tcp_port dp, env_now env)
           | Some (ip, port, _) \<Rightarrow> (ip, port, env_now env)))
    \<and> lookup_device (ds_discoveredDevices (fst (checkExpiredDevices env st))) k
      = (case lookup_device (ds_discoveredDevices st) k of
           None \<Rightarrow> None
         | Some (ip, port, seen) \<Rightarrow>
             if seen + WAIT_TIME < env_now env then None else Some (ip, port, seen))
    \<and> distinct_names (ds_discoveredDevices (fst (note_device env sender dp st)))
    \<and> distinct_names (ds_discoveredDevices (fst (checkExpiredDevices env st)))"
proof -
  obtain st' fx where n: "note_device env sender dp st = (st', fx)" by fastforce
  show ?thesis
    using note_device_lookup [OF n assms] note_device_cases(1) [OF n]
      device_vector.lookup_expire [OF assms] device_vector.inv_expire [OF assms]
      device_vector.inv_hear [OF assms]
    by (simp add: n checkExpiredDevices_alt)
qed

definition busy_b :: DiscoveryService where
  "busy_b = node_b\<lparr>ds_discoveredDevices :=
     [\<lparr>dd_name = [0x61], dd_ip = [0x31], dd_tcp_port = 50001, dd_last_seen = 0\<rparr>,
      \<lparr>dd_name = [0x63], dd_ip = [0x32], dd_tcp_port = 50003, dd_last_seen = - 20000000000\<rparr>]\<rparr>"

theorem device_table_refinement_witness:
  "lookup_device (ds_discoveredDevices (fst (note_device (quiet_env\<lparr>env_now := 5\<rparr>) 9
       \<lparr>dp_device_name = [0x61], dp_tcp_port = 7\<rparr> busy_b))) [0x61] = Some ([0x31], 50001, 5)
   \<and> lookup_device (ds_discoveredDevices (fst (checkExpiredDevices quiet_env busy_b))) [0x63] = None"
proof -
  have "distinct_names (ds_discoveredDevices busy_b)" by (simp add: busy_b_def distinct_names_def)
  from device_table_refinement [OF this, of "quiet_env\<lparr>env_now := 5\<rparr>" 9 "\<lparr>dp_device_name = [0x61], dp_tcp_port = 7\<rparr>"]
    device_table_refinement [OF this, of quiet_env 9 "\<lparr>dp_device_name = [0x61], dp_tcp_port = 7\<rparr>" "[0x63]"]
  show ?thesis by (simp add: busy_b_def lookup_device_def quiet_env_def WAIT_TIME_def)
qed

text \<open>
  A device that keeps announcing itself is never dropped: through any sequence of
  announcements and expiry checks in order of time, a known device stays in the table under its
  first address and port as long as no check comes more than 15 seconds after the time it was
  seen when the sequence began.
\<close>

theorem device_kept_while_fresh:
  assumes "distinct_names devices" and "lookup_device devices nm = Some (ip, port, seen)"
    and "sorted (map event_time es)" and "\<forall>e \<in> set es. seen \<le> event_time e"
    and "\<forall>now. Expire now \<in> set es \<longrightarrow> now \<le> seen + WAIT_TIME"
  shows "\<exists>seen' \<ge> seen.
    lookup_device (fold (apply_event hear_device expire_devices) es devices) nm = Some (ip, port, seen')"
  by (rule device_vector.entry_survives [OF assms(1,2,4,5,3)])

theorem device_kept_while_fresh_witness:
  "\<exists>seen' \<ge> 0. lookup_device (fold (apply_event hear_device expire_devices)
     [Expire 5000000000, Heard [0x61] [0x39] 9 6000000000, Expire 15000000000]
     (ds_discoveredDevices busy_b)) [0x61] = Some ([0x31], 50001, seen')"
  using device_kept_while_fresh [of "ds_discoveredDevices busy_b" "[0x61]" "[0x31]" 50001 0
      "[Expire 5000000000, Heard [0x61] [0x39] 9 6000000000, Expire 15000000000]"]
  by (simp add: busy_b_def distinct_names_def lookup_device_def WAIT_TIME_def)

definition announced_length :: "bytes \<Rightarrow> nat" where
  "announced_length data = unat (get_be (take 2 (drop 2 data)) :: u16)"

lemma deserializeDiscovery_faults:
  assumes "4 \<le> length data"
  shows "deserializeDiscovery data len out = Inl e \<longleftrightarrow>
    e = OutOfBounds \<and> 4 + announced_length data \<le> len \<and> length data < 4 + announced_length data"
  using assms
  by (auto simp: deserializeDiscovery_def peek_be_in Let_def peeks_def announced_length_def)

lemma handlers_fault:
  assumes "length (ds_buffer_incoming st) = BUFFER_MAX_SIZE"
  shows "handle_broadcast env st sender base = Inl OutOfBounds \<longleftrightarrow>
      deserializeDiscovery (drop HEADER_SIZE (ds_buffer_incoming st)) (unat (payload_len base)) None
        = Inl OutOfBounds"
    and "handle_reply env st sender base = Inl OutOfBounds \<longleftrightarrow>
      deserializeDiscovery (drop HEADER_SIZE (ds_buffer_incoming st)) (unat (payload_len base)) None
        = Inl OutOfBounds"
  by (auto simp: handle_broadcast_def handle_reply_def andThen_eq_Inl initialised_def Let_def
      case_prod_unfold split: option.splits if_splits)

text \<open>
  C19. Where the datagram handler leaves its buffer. With its 512-byte buffer and a foreign
  sender, the handler reads out of bounds exactly when the buffer holds a valid header of a
  broadcast or reply whose announced name is longer than the 486 bytes that remain in the buffer
  and the header's payload length covers it: neither \<open>payload_len\<close> nor the announced length is
  compared with the number of bytes received.
\<close>

theorem discovery_overread:
  assumes "length (ds_buffer_incoming st) = BUFFER_MAX_SIZE" and "env_local env = Some self"
    and "sender \<noteq> self"
  shows "on_package env st None sender pkt = Inl OutOfBounds \<longleftrightarrow>
    (\<exists>h. deserializeHeader (ds_buffer_incoming (store_datagram pkt st)) None = Inr (True, Some h)
       \<and> (msg_type h = DISCOVERY_BROADCAST \<or> msg_type h = DISCOVERY_REPLY)
       \<and> 4 + announced_length (drop HEADER_SIZE (ds_buffer_incoming (store_datagram pkt st)))
           \<le> unat (payload_len h)
       \<and> 486 < announced_length (drop HEADER_SIZE (ds_buffer_incoming (store_datagram pkt st))))"
proof -
  let ?st = "store_datagram pkt st"
  have len: "length (ds_buffer_incoming ?st) = BUFFER_MAX_SIZE" using assms(1) by (rule length_store_datagram)
  obtain ok r where h: "deserializeHeader (ds_buffer_incoming ?st) None = Inr (ok, r)"
    using deserializeHeader_total [of "ds_buffer_incoming ?st" None] len by auto
  have faults: "deserializeDiscovery (drop HEADER_SIZE (ds_buffer_incoming ?st)) n None = Inl OutOfBounds
      \<longleftrightarrow> 4 + announced_length (drop HEADER_SIZE (ds_buffer_incoming ?st)) \<le> n
        \<and> 486 < announced_length (drop HEADER_SIZE (ds_buffer_incoming ?st))" for n
    using len deserializeDiscovery_faults [of "drop HEADER_SIZE (ds_buffer_incoming ?st)" n None OutOfBounds]
    by auto
  show ?thesis
  proof (cases ok)
    case True
    then obtain b where "r = Some b" using deserializeHeader_True [of "ds_buffer_incoming ?st" None r] h by auto
    with True h assms(2,3) show ?thesis
      by (auto simp: on_package_def Let_def handlers_fault [OF len] faults)
  next
    case False
    with h assms(2,3) show ?thesis by (simp add: on_package_def Let_def)
  qed
qed

theorem discovery_overread_witness:
  "on_package quiet_env node_b None 1
     (frame DISCOVERY_BROADCAST 0 (serializeDiscovery \<lparr>dp_device_name = replicate 487 0x61, dp_tcp_port = 1\<rparr>))
   = Inl OutOfBounds"
proof -
  let ?pl = "serializeDiscovery \<lparr>dp_device_name = replicate 487 0x61, dp_tcp_port = 1\<rparr>"
  let ?m = "frame DISCOVERY_BROADCAST 0 ?pl"
  let ?buf = "ds_buffer_incoming (store_datagram ?m node_b)"
  have pl: "?pl = put_be 2 (1 :: u16) @ put_be 2 (487 :: u16) @ replicate 487 0x61"
    by (simp add: serializeDiscovery_def Let_def)
  let ?h = "buildHeader DISCOVERY_BROADCAST 0 (of_nat (length ?pl))"
  have buf: "?buf = serializeHeader ?h @ put_be 2 (1 :: u16) @ put_be 2 (487 :: u16) @ replicate 486 0x61"
    by (simp add: store_datagram_def node_b_def newDiscoveryService_def overwrite_0 frame_def)
      (simp add: pl)
  have h: "deserializeHeader ?buf None = Inr (True, Some (?h\<lparr>header_crc := crc_of ?h\<rparr>))"
    unfolding buf by (rule deserializeHeader_serializeHeader) (simp add: wf_header_def)
  have "announced_length (drop HEADER_SIZE ?buf) = 487"
    by (simp add: buf announced_length_def)
  with h show ?thesis
    by (subst discovery_overread [of node_b quiet_env 0])
      (auto simp: node_b_def newDiscoveryService_def quiet_env_def pl)
qed

text \<open>
  A datagram shorter than a header is not noticed: receiving an empty datagram from any
  sender runs the handler on the bytes of the previous datagram, exactly as if that sender had
  sent it again.
\<close>

theorem empty_datagram_replays_previous:
  "on_package env (store_datagram pkt st) None sender [] = on_package env st None sender pkt"
proof -
  have "store_datagram [] s = s" for s by (simp add: store_datagram_def overwrite_def)
  then show ?thesis by (simp add: on_package_def)
qed

end
