(* ===== verification/Net_Core.thy ===== *)
theory Net_Core
  imports Net_Store Discovery_System Sender_System Receiver_System
begin

text \<open>
  The class \<open>NetTransfer\<close> of \<open>src/include/NetTransfer.h\<close> and \<open>src/src/core/NetTransfer.cpp\<close>, which
  owns the discovery service, the receiver and the running sender, the configuration and the
  decision which peers are trusted. A method that writes files returns the disk beside its
  outcome, because a file may already have been emptied when an exception leaves the method.
\<close>

section \<open>State\<close>

record NetTransfer =
  nt_config :: Config
  nt_dir :: bytes
  nt_discovery :: "DiscoveryService option"  \<comment> \<open>\<open>None\<close>: the pointer is null\<close>
  nt_receiver :: "TransferReceiver option"
  nt_active_sender :: "TransferSender option"
  nt_io_running :: bool
  nt_pending_trust_flag :: bool
  nt_pending_trust_fingerprint :: bytes
  nt_pending_trust_device_name :: bytes

datatype net_effect =
    NDiscovery discovery_effect
  | NReceiver receiver_effect
  | NRunIo
  | NPostStartSender
  | NNewDevice bytes bytes

record net_env =
  ne_xdg :: "bytes option"
  ne_home :: "bytes option"
  ne_mkdir_ok :: bool
  ne_json :: json_lib
  ne_cert :: cert_lib
  ne_writable :: "bytes \<Rightarrow> bool"
  ne_ssl_ok :: bool
  ne_udp :: udp_env
  ne_receiver :: receiver_env
  ne_sender :: sender_env

text \<open>The values that members without initialiser happen to have, and the random numbers: the session id and
  those drawn for a new key.\<close>

record garbage =
  ga_udp :: bytes
  ga_tcp :: bytes
  ga_sha :: bytes
  ga_u64 :: u64
  ga_sid :: u64
  ga_key :: nat

section \<open>Construction, start and stop\<close>

definition newNetTransfer :: "net_env \<Rightarrow> disk \<Rightarrow> NetTransfer run" where
  "newNetTransfer env disk =
     andThen (getConfigPath (ne_xdg env) (ne_home env) (ne_mkdir_ok env)) (\<lambda>dir.
     andThen (loadConfig (ne_json env) disk dir \<lparr>cf_device_name = [], cf_tcp_port = None\<rparr>) (\<lambda>(_, config).
     Inr \<lparr>nt_config = config, nt_dir = dir, nt_discovery = None, nt_receiver = None,
          nt_active_sender = None, nt_io_running = False, nt_pending_trust_flag = False,
          nt_pending_trust_fingerprint = [], nt_pending_trust_device_name = []\<rparr>))"

text \<open>
  \<open>start\<close>; the port is used to build both services, so it must have a value, and assigning a new
  thread to \<open>io_thread\<close> while it runs ends the program.
\<close>

definition startNet ::
  "net_env \<Rightarrow> garbage \<Rightarrow> disk \<Rightarrow> NetTransfer \<Rightarrow> disk \<times> (bool \<times> NetTransfer \<times> net_effect list) run" where
  "startNet env ga disk nt =
     (let config = (if cf_device_name (nt_config nt) = []
                    then \<lparr>cf_device_name = ascii ''NetTransfer'', cf_tcp_port = Some TCP_PORT_MIN\<rparr>
                    else nt_config nt)
      in case cf_tcp_port config of
           None \<Rightarrow> (disk, Inl Uninitialised)
         | Some port \<Rightarrow>
             let disc = newDiscoveryService (cf_device_name config) port (ga_udp ga);
                 rcv = newTransferReceiver port (ga_u64 ga) (ga_u64 ga) (ga_tcp ga);
                 nt = nt\<lparr>nt_config := config, nt_discovery := Some disc, nt_receiver := Some rcv\<rparr>
             in (case ensureCertExists (ne_cert env) (ga_key ga) (ne_writable env) disk (nt_dir nt) (cf_device_name config) of
                  Inl e \<Rightarrow> (disk, Inl e)
                | Inr disk \<Rightarrow>
                    if \<not> ne_ssl_ok env then (disk, Inr (False, nt, []))
                    else
                      let (fine, disc, dfx) = startDiscovery (ne_udp env) disc;
                          nt = nt\<lparr>nt_discovery := Some disc\<rparr>
                      in if \<not> fine then (disk, Inr (False, nt, map NDiscovery dfx))
                         else
                           let (fine, rcv, rfx) = startReceiver (ne_receiver env) rcv;
                               nt = nt\<lparr>nt_receiver := Some rcv\<rparr>
                           in if \<not> fine then (disk, Inr (False, nt, map NDiscovery dfx))
                              else
                                let config = config\<lparr>cf_tcp_port := Some (getPort rcv)\<rparr>;
                                    nt = nt\<lparr>nt_discovery := Some (setTcpPort (getPort rcv) disc),
                                            nt_config := config\<rparr>;
                                    (disk, saved) = saveConfig (ne_json env) (ne_writable env) disk (nt_dir nt) config
                                in (case saved of
                                     Inl e \<Rightarrow> (disk, Inl e)
                                   | Inr _ \<Rightarrow>
                                       if nt_io_running nt then (disk, Inl Uncaught)
                                       else (disk, Inr (True, nt\<lparr>nt_io_running := True\<rparr>,
                                              map NDiscovery dfx @ map NReceiver rfx @ [NRunIo])))))"

text \<open>
  \<open>stop\<close> dereferences the two service pointers, and joining a thread that does not run throws.
\<close>

definition stopNet :: "net_env \<Rightarrow> NetTransfer \<Rightarrow> (bool \<times> NetTransfer \<times> net_effect list) run" where
  "stopNet env nt =
     (case nt_discovery nt of
        None \<Rightarrow> Inl OutOfBounds
      | Some disc \<Rightarrow>
          let (fine, disc, dfx) = stopDiscovery (ne_udp env) disc;
              nt = nt\<lparr>nt_discovery := Some disc\<rparr>
          in if \<not> fine then Inr (False, nt, map NDiscovery dfx)
             else
               (case nt_receiver nt of
                 None \<Rightarrow> Inl OutOfBounds
               | Some rcv \<Rightarrow>
                   let (fine, rcv) = stopReceiver (ne_receiver env) rcv;
                       nt = nt\<lparr>nt_receiver := Some rcv\<rparr>
                   in if \<not> fine then Inr (False, nt, map NDiscovery dfx)
                      else
                        let nt = nt\<lparr>nt_active_sender :=
                                     map_option (\<lambda>x. snd (stopSender (ne_sender env) x)) (nt_active_sender nt)\<rparr>
                        in if \<not> nt_io_running nt then Inl Uncaught
                           else Inr (True, nt\<lparr>nt_io_running := False\<rparr>, map NDiscovery dfx)))"

text \<open>The destructor stops and joins the io thread when it still runs.\<close>

definition destroyNet :: "NetTransfer \<Rightarrow> NetTransfer" where
  "destroyNet nt = (if nt_io_running nt then nt\<lparr>nt_io_running := False\<rparr> else nt)"

section \<open>Services for the user interface\<close>

definition sendFile ::
  "garbage \<Rightarrow> DiscoveredDevice \<Rightarrow> bytes \<Rightarrow> NetTransfer \<Rightarrow> bool \<times> NetTransfer \<times> net_effect list" where
  "sendFile ga target file_path nt =
     (True,
      nt\<lparr>nt_active_sender := Some (newTransferSender (dd_ip target) (dd_tcp_port target) file_path
            (cf_device_name (nt_config nt)) (ga_sid ga) (ga_tcp ga) (ga_sha ga) (ga_u64 ga))\<rparr>,
      [NPostStartSender])"

definition getNetDevices :: "NetTransfer \<Rightarrow> DiscoveredDevice list run" where
  "getNetDevices nt =
     (case nt_discovery nt of None \<Rightarrow> Inl OutOfBounds | Some disc \<Rightarrow> Inr (getDevices disc))"

definition acceptOffer :: "NetTransfer \<Rightarrow> net_effect list run" where
  "acceptOffer nt =
     (case nt_receiver nt of None \<Rightarrow> Inl OutOfBounds
      | Some rcv \<Rightarrow> andThen (accept rcv) (\<lambda>fx. Inr (map NReceiver fx)))"

definition rejectOffer :: "NetTransfer \<Rightarrow> RejectReason \<Rightarrow> net_effect list run" where
  "rejectOffer nt reason =
     (case nt_receiver nt of None \<Rightarrow> Inl OutOfBounds
      | Some rcv \<Rightarrow> andThen (reject rcv reason) (\<lambda>fx. Inr (map NReceiver fx)))"

definition getDeviceName :: "NetTransfer \<Rightarrow> bytes" where
  "getDeviceName nt = cf_device_name (nt_config nt)"

definition setNetDeviceName ::
  "json_lib \<Rightarrow> (bytes \<Rightarrow> bool) \<Rightarrow> disk \<Rightarrow> bytes \<Rightarrow> NetTransfer \<Rightarrow> disk \<times> NetTransfer run" where
  "setNetDeviceName lib writable disk name nt =
     (let nt = nt\<lparr>nt_config := (nt_config nt)\<lparr>cf_device_name := name\<rparr>,
                  nt_discovery := map_option (setDeviceName name) (nt_discovery nt)\<rparr>;
          (disk, saved) = saveConfig lib writable disk (nt_dir nt) (nt_config nt)
      in (disk, andThen saved (\<lambda>_. Inr nt)))"

section \<open>Trust\<close>

text \<open>\<open>validatePeerCert\<close> reads the store, starting fresh when it is missing or corrupted.\<close>

definition load_trust_store :: "json_lib \<Rightarrow> disk \<Rightarrow> bytes \<Rightarrow> json" where
  "load_trust_store lib disk dir =
     (case disk (dir @ TRUSTED_FILE) of
        None \<Rightarrow> json_empty
      | Some s \<Rightarrow> (let (ok, store) = jl_parse lib s json_empty in if ok then store else json_empty))"

definition validatePeerCert ::
  "json_lib \<Rightarrow> disk \<Rightarrow> bytes option \<Rightarrow> bytes \<Rightarrow> NetTransfer \<Rightarrow> bool \<times> NetTransfer \<times> net_effect list" where
  "validatePeerCert lib disk peer device_name nt =
     (let trust_store = load_trust_store lib disk (nt_dir nt);
          fingerprint = getCertFingerprint peer
      in if fingerprint = [] then (False, nt, [])
         else if json_lookup trust_store fingerprint \<noteq> None then (True, nt, [])
         else (False,
               nt\<lparr>nt_pending_trust_fingerprint := fingerprint,
                  nt_pending_trust_device_name := device_name, nt_pending_trust_flag := True\<rparr>,
               [NNewDevice fingerprint device_name]))"

text \<open>\<open>trustDevice\<close> keeps what a failing parse left in the variable.\<close>

definition trustDevice ::
  "json_lib \<Rightarrow> (bytes \<Rightarrow> bool) \<Rightarrow> disk \<Rightarrow> NetTransfer \<Rightarrow> disk \<times> NetTransfer run" where
  "trustDevice lib writable disk nt =
     (if \<not> nt_pending_trust_flag nt then (disk, Inr nt)
      else
        let path = nt_dir nt @ TRUSTED_FILE;
            trust_store = (case disk path of None \<Rightarrow> json_empty | Some s \<Rightarrow> snd (jl_parse lib s json_empty))
        in (case json_assign (nt_pending_trust_fingerprint nt)
                  (JString (nt_pending_trust_device_name nt)) trust_store of
             Inl e \<Rightarrow> (disk, Inl e)
           | Inr trust_store \<Rightarrow>
               let disk' = (if writable path then disk(path \<mapsto> []) else disk) in
               (case jl_dump lib trust_store of
                 None \<Rightarrow> (disk', Inl Uncaught)
               | Some s \<Rightarrow>
                   (if writable path then disk(path \<mapsto> s) else disk,
                    Inr (nt\<lparr>nt_pending_trust_flag := False\<rparr>)))))"

definition hasPendingTrust :: "NetTransfer \<Rightarrow> bool" where
  "hasPendingTrust nt = nt_pending_trust_flag nt"

definition ignorePendingTrust :: "NetTransfer \<Rightarrow> NetTransfer" where
  "ignorePendingTrust nt = nt\<lparr>nt_pending_trust_flag := False\<rparr>"

section \<open>Properties of trust\<close>

text \<open>Which fingerprints the next connection would be accepted for.\<close>

definition trusted :: "json_lib \<Rightarrow> disk \<Rightarrow> bytes \<Rightarrow> bytes \<Rightarrow> bool" where
  "trusted lib disk dir fingerprint \<longleftrightarrow> json_lookup (load_trust_store lib disk dir) fingerprint \<noteq> None"

definition store_readable :: "json_lib \<Rightarrow> disk \<Rightarrow> bytes \<Rightarrow> bool" where
  "store_readable lib disk dir \<longleftrightarrow>
     (\<forall>s. disk (dir @ TRUSTED_FILE) = Some s \<longrightarrow> fst (jl_parse lib s json_empty))"

lemma json_assign_lookup:
  "json_assign key v j = Inr j' \<Longrightarrow> json_lookup j' k = (if k = key then Some v else json_lookup j k)"
  by (cases j) auto

lemma trustDevice_store:
  assumes "json_ok lib" and "nt_pending_trust_flag nt" and "writable (nt_dir nt @ TRUSTED_FILE)"
    and "store_readable lib disk (nt_dir nt)" and "trustDevice lib writable disk nt = (disk', Inr nt')"
  shows "nt' = nt\<lparr>nt_pending_trust_flag := False\<rparr>"
    and "\<And>p. p \<noteq> nt_dir nt @ TRUSTED_FILE \<Longrightarrow> disk' p = disk p"
    and "\<And>k. json_lookup (load_trust_store lib disk' (nt_dir nt)) k =
      (if k = nt_pending_trust_fingerprint nt then Some (JString (nt_pending_trust_device_name nt))
       else json_lookup (load_trust_store lib disk (nt_dir nt)) k)"
proof -
  let ?path = "nt_dir nt @ TRUSTED_FILE"
  let ?old = "case disk ?path of None \<Rightarrow> json_empty | Some s \<Rightarrow> snd (jl_parse lib s json_empty)"
  obtain store s where st: "json_assign (nt_pending_trust_fingerprint nt)
      (JString (nt_pending_trust_device_name nt)) ?old = Inr store"
    and s: "jl_dump lib store = Some s" "disk' = disk(?path \<mapsto> s)" "nt' = nt\<lparr>nt_pending_trust_flag := False\<rparr>"
    using assms(2,3,5) by (auto simp: trustDevice_def Let_def split: sum.splits option.splits)
  have old: "?old = load_trust_store lib disk (nt_dir nt)"
    using assms(4) by (auto simp: load_trust_store_def store_readable_def split: option.splits prod.splits)
  have new: "load_trust_store lib disk' (nt_dir nt) = store"
    using assms(1) s by (simp add: load_trust_store_def json_ok_def)
  show "nt' = nt\<lparr>nt_pending_trust_flag := False\<rparr>" by (fact s(3))
  show "\<And>p. p \<noteq> ?path \<Longrightarrow> disk' p = disk p" by (simp add: s(2))
  show "\<And>k. json_lookup (load_trust_store lib disk' (nt_dir nt)) k =
      (if k = nt_pending_trust_fingerprint nt then Some (JString (nt_pending_trust_device_name nt))
       else json_lookup (load_trust_store lib disk (nt_dir nt)) k)"
    unfolding new using json_assign_lookup [OF st] old by simp
qed

text \<open>
  C25. The decision to trust takes effect and nothing more: after \<open>trustDevice\<close> the pending
  fingerprint is trusted, every other fingerprint is trusted exactly if it was before, no other
  file changes, and the next connection of a peer with that certificate is let through without
  asking again.
\<close>

theorem trust_decision:
  assumes "json_ok lib" and "hasPendingTrust nt" and "writable (nt_dir nt @ TRUSTED_FILE)"
    and "store_readable lib disk (nt_dir nt)" and "trustDevice lib writable disk nt = (disk', Inr nt')"
  shows "(\<forall>fp. trusted lib disk' (nt_dir nt) fp \<longleftrightarrow>
        fp = nt_pending_trust_fingerprint nt \<or> trusted lib disk (nt_dir nt) fp)
    \<and> \<not> hasPendingTrust nt'
    \<and> (\<forall>p. p \<noteq> nt_dir nt @ TRUSTED_FILE \<longrightarrow> disk' p = disk p)
    \<and> (\<forall>digest name. getCertFingerprint (Some digest) = nt_pending_trust_fingerprint nt \<and> digest \<noteq> [] \<longrightarrow>
        validatePeerCert lib disk' (Some digest) name nt' = (True, nt', []))"
proof -
  note s = trustDevice_store [OF assms(1) _ assms(3-5)]
  have f: "nt_pending_trust_flag nt" using assms(2) by (simp add: hasPendingTrust_def)
  have "validatePeerCert lib disk' (Some digest) name nt' = (True, nt', [])"
    if "getCertFingerprint (Some digest) = nt_pending_trust_fingerprint nt" "digest \<noteq> []" for digest name
  proof -
    have "getCertFingerprint (Some digest) \<noteq> []" using that(2) by (simp add: fingerprint_empty)
    with s(1,3) [OF f] that(1) show ?thesis by (simp add: validatePeerCert_def)
  qed
  with s [OF f] show ?thesis by (auto simp: trusted_def hasPendingTrust_def)
qed

definition fresh_net :: NetTransfer where
  "fresh_net = \<lparr>nt_config = \<lparr>cf_device_name = [65], cf_tcp_port = Some 50001\<rparr>, nt_dir = [], nt_discovery = None,
     nt_receiver = None, nt_active_sender = None, nt_io_running = False, nt_pending_trust_flag = False,
     nt_pending_trust_fingerprint = [], nt_pending_trust_device_name = []\<rparr>"

definition asked_net :: "bytes \<Rightarrow> NetTransfer" where
  "asked_net digest = fst (snd (validatePeerCert (one_value_lib json_empty) Map.empty (Some digest) [66] fresh_net))"

lemma asked_net_simps:
  "digest \<noteq> [] \<Longrightarrow> asked_net digest = fresh_net\<lparr>nt_pending_trust_fingerprint := getCertFingerprint (Some digest),
     nt_pending_trust_device_name := [66], nt_pending_trust_flag := True\<rparr>"
  by (simp add: asked_net_def validatePeerCert_def fingerprint_empty load_trust_store_def json_empty_def fresh_net_def Let_def)

abbreviation trust_lib :: "bytes \<Rightarrow> json_lib" where
  "trust_lib digest \<equiv> one_value_lib (JObject [getCertFingerprint (Some digest) \<mapsto> JString [66]])"

lemma trust_empty_store:
  assumes "nt_pending_trust_flag nt" and "nt_pending_trust_fingerprint nt = getCertFingerprint (Some digest)"
    and "nt_pending_trust_device_name nt = [66]" and "nt_dir nt = []"
  shows "trustDevice (trust_lib digest) (\<lambda>_. True) Map.empty nt
    = ([TRUSTED_FILE \<mapsto> [123]], Inr (nt\<lparr>nt_pending_trust_flag := False\<rparr>))"
  using assms by (simp add: trustDevice_def one_value_lib_def json_empty_def)

theorem trust_decision_witness:
  "\<exists>disk' nt'. trustDevice (trust_lib [7]) (\<lambda>_. True) Map.empty (asked_net [7]) = (disk', Inr nt')
     \<and> validatePeerCert (trust_lib [7]) disk' (Some [7]) [66] nt' = (True, nt', [])"
proof -
  have p: "nt_pending_trust_fingerprint (asked_net [7]) = getCertFingerprint (Some [7])"
    and h: "hasPendingTrust (asked_net [7])" and d: "nt_dir (asked_net [7]) = []"
    by (simp_all add: asked_net_simps hasPendingTrust_def fresh_net_def)
  have t: "trustDevice (trust_lib [7]) (\<lambda>_. True) Map.empty (asked_net [7])
      = ([TRUSTED_FILE \<mapsto> [123]], Inr ((asked_net [7])\<lparr>nt_pending_trust_flag := False\<rparr>))"
    by (rule trust_empty_store) (simp_all add: asked_net_simps fresh_net_def)
  have r: "store_readable (trust_lib [7]) Map.empty (nt_dir (asked_net [7]))" by (simp add: store_readable_def)
  have "validatePeerCert (trust_lib [7]) [TRUSTED_FILE \<mapsto> [123]] (Some [7]) [66]
      ((asked_net [7])\<lparr>nt_pending_trust_flag := False\<rparr>)
      = (True, (asked_net [7])\<lparr>nt_pending_trust_flag := False\<rparr>, [])"
    using trust_decision [OF one_value_lib_ok h _ r t] p by simp
  with t show ?thesis by blast
qed

text \<open>
  The question and the answer may be about different devices: when a second unknown device
  connects while the user looks at the question about the first one, answering yes trusts the
  second device, which was not in the question, and not the first.
\<close>

theorem trust_race:
  assumes "json_ok lib" and "writable (nt_dir nt @ TRUSTED_FILE)" and "store_readable lib disk (nt_dir nt)"
    and "validatePeerCert lib disk a name_a nt = (False, nt1, [NNewDevice fp_a name_a])"
    and "validatePeerCert lib disk b name_b nt1 = (False, nt2, [NNewDevice fp_b name_b])"
    and "trustDevice lib writable disk nt2 = (disk', Inr nt3)" and "fp_a \<noteq> fp_b"
  shows "trusted lib disk' (nt_dir nt) fp_b \<and> \<not> trusted lib disk' (nt_dir nt) fp_a"
proof -
  have a: "\<not> trusted lib disk (nt_dir nt) fp_a" "nt_dir nt1 = nt_dir nt"
    using assms(4) by (auto simp: validatePeerCert_def Let_def trusted_def split: if_splits)
  have b: "nt_dir nt2 = nt_dir nt" "nt_pending_trust_fingerprint nt2 = fp_b" "nt_pending_trust_flag nt2"
    using assms(5) a(2) by (auto simp: validatePeerCert_def Let_def split: if_splits)
  have "json_lookup (load_trust_store lib disk' (nt_dir nt2)) k =
      (if k = fp_b then Some (JString (nt_pending_trust_device_name nt2))
       else json_lookup (load_trust_store lib disk (nt_dir nt2)) k)" for k
    using trustDevice_store(3) [OF assms(1) b(3) _ _ assms(6)] assms(2,3) b by simp
  with a b(1) assms(7) show ?thesis by (simp add: trusted_def)
qed

theorem trust_race_witness:
  "\<exists>disk' nt3. trustDevice (trust_lib [7]) (\<lambda>_. True) Map.empty
       (fst (snd (validatePeerCert (trust_lib [7]) Map.empty (Some [7]) [66] (asked_net [9])))) = (disk', Inr nt3)
     \<and> \<not> trusted (trust_lib [7]) disk' [] (getCertFingerprint (Some [9]))"
proof -
  have d: "nt_dir fresh_net = []" by (simp add: fresh_net_def)
  have ne: "getCertFingerprint (Some [9]) \<noteq> getCertFingerprint (Some [7])" by (simp add: fingerprint_inject)
  have a: "validatePeerCert (trust_lib [7]) Map.empty (Some [9]) [66] fresh_net
      = (False, asked_net [9], [NNewDevice (getCertFingerprint (Some [9])) [66]])"
    by (simp add: validatePeerCert_def fingerprint_empty load_trust_store_def json_empty_def asked_net_simps Let_def)
  let ?nt = "(asked_net [9])\<lparr>nt_pending_trust_fingerprint := getCertFingerprint (Some [7]),
    nt_pending_trust_device_name := [66], nt_pending_trust_flag := True\<rparr>"
  have b: "validatePeerCert (trust_lib [7]) Map.empty (Some [7]) [66] (asked_net [9])
      = (False, ?nt, [NNewDevice (getCertFingerprint (Some [7])) [66]])"
    by (simp add: validatePeerCert_def fingerprint_empty load_trust_store_def json_empty_def Let_def)
  have t: "trustDevice (trust_lib [7]) (\<lambda>_. True) Map.empty ?nt
      = ([TRUSTED_FILE \<mapsto> [123]], Inr (?nt\<lparr>nt_pending_trust_flag := False\<rparr>))"
    by (rule trust_empty_store) (simp_all add: asked_net_simps fresh_net_def)
  have r: "store_readable (trust_lib [7]) Map.empty (nt_dir fresh_net)" by (simp add: store_readable_def)
  have "\<not> trusted (trust_lib [7]) [TRUSTED_FILE \<mapsto> [123]] [] (getCertFingerprint (Some [9]))"
    using trust_race [OF one_value_lib_ok _ r a b t ne] by (simp add: d)
  with t show ?thesis by (simp add: b)
qed

section \<open>Starting\<close>

text \<open>The configuration the services are built from.\<close>

definition start_config :: "NetTransfer \<Rightarrow> Config" where
  "start_config nt = (if cf_device_name (nt_config nt) = []
     then \<lparr>cf_device_name = ascii ''NetTransfer'', cf_tcp_port = Some TCP_PORT_MIN\<rparr> else nt_config nt)"

text \<open>What a successful \<open>start\<close> did, step by step.\<close>

lemma startNet_started:
  assumes "startNet env ga disk nt = (disk', Inr (True, nt', fx))"
  obtains port disk1 disc rcv dfx rfx saved where "cf_tcp_port (start_config nt) = Some port"
    and "ensureCertExists (ne_cert env) (ga_key ga) (ne_writable env) disk (nt_dir nt) (cf_device_name (start_config nt)) = Inr disk1"
    and "startDiscovery (ne_udp env)
        (newDiscoveryService (cf_device_name (start_config nt)) port (ga_udp ga)) = (True, disc, dfx)"
    and "startReceiver (ne_receiver env) (newTransferReceiver port (ga_u64 ga) (ga_u64 ga) (ga_tcp ga))
        = (True, rcv, rfx)"
    and "saveConfig (ne_json env) (ne_writable env) disk1 (nt_dir nt)
        ((start_config nt)\<lparr>cf_tcp_port := Some (getPort rcv)\<rparr>) = (disk', Inr saved)"
    and "nt' = nt\<lparr>nt_config := (start_config nt)\<lparr>cf_tcp_port := Some (getPort rcv)\<rparr>,
        nt_discovery := Some (setTcpPort (getPort rcv) disc), nt_receiver := Some rcv, nt_io_running := True\<rparr>"
    and "fx = map NDiscovery dfx @ map NReceiver rfx @ [NRunIo]"
proof -
  from assms show ?thesis
    unfolding startNet_def start_config_def [symmetric] Let_def
    by (auto split: option.splits sum.splits prod.splits if_splits intro!: that)
qed

lemma startDiscovery_True:
  "startDiscovery env st = (True, st', fx) \<Longrightarrow> st' = st\<lparr>ds_socket_open := True\<rparr>
     \<and> fx = listenForPackages @ sendBroadcast env (st\<lparr>ds_socket_open := True\<rparr>) @ startTimer"
  by (auto simp: startDiscovery_def Let_def split: if_splits)

lemma startReceiver_True:
  "startReceiver env st = (True, st', fx) \<Longrightarrow> re_bind_ok env (getPort st')
     \<and> tr_listen_port st \<le> getPort st' \<and> fx = [RStart AcceptConnection]"
  using bind_loop_spec [where ok = "re_bind_ok env" and port = "tr_listen_port st"]
  by (auto simp: startReceiver_def listenForConnections_def getPort_def split: option.splits)

text \<open>
  C26. A successful \<open>start\<close> leaves one port everywhere: the receiver listens on it (it could be
  bound), the discovery service announces it from now on together with the configured name, which
  is not empty, and, where the configuration can be written, the file read at the next start
  gives the same name and port. Listening for datagrams, for connections and the timer have been
  started before the thread that runs them.
\<close>

theorem start_consistent:
  assumes "startNet env ga disk nt = (disk', Inr (True, nt', fx))" and "json_ok (ne_json env)"
    and "ne_writable env (nt_dir nt @ CONFIG_FILE)"
  shows "\<exists>disc rcv. nt_discovery nt' = Some disc \<and> nt_receiver nt' = Some rcv
    \<and> re_bind_ok (ne_receiver env) (getPort rcv) \<and> cf_tcp_port (nt_config nt') = Some (getPort rcv)
    \<and> own_payload disc = serializeDiscovery \<lparr>dp_device_name = getDeviceName nt', dp_tcp_port = getPort rcv\<rparr>
    \<and> getDeviceName nt' \<noteq> []
    \<and> loadConfig (ne_json env) disk' (nt_dir nt) any = Inr (True, nt_config nt')
    \<and> (\<exists>pre. fx = pre @ [NRunIo] \<and> NDiscovery AsyncReceive \<in> set pre
        \<and> NDiscovery (AsyncWait SEARCH_LOOP) \<in> set pre \<and> NReceiver (RStart AcceptConnection) \<in> set pre)"
proof (rule startNet_started [OF assms(1)])
  fix port disk1 disc rcv dfx rfx saved
  let ?config = "(start_config nt)\<lparr>cf_tcp_port := Some (getPort rcv)\<rparr>"
  assume disc: "startDiscovery (ne_udp env)
        (newDiscoveryService (cf_device_name (start_config nt)) port (ga_udp ga)) = (True, disc, dfx)"
    and rcv: "startReceiver (ne_receiver env) (newTransferReceiver port (ga_u64 ga) (ga_u64 ga) (ga_tcp ga))
        = (True, rcv, rfx)"
    and save: "saveConfig (ne_json env) (ne_writable env) disk1 (nt_dir nt) ?config = (disk', Inr saved)"
    and nt': "nt' = nt\<lparr>nt_config := ?config, nt_discovery := Some (setTcpPort (getPort rcv) disc),
        nt_receiver := Some rcv, nt_io_running := True\<rparr>"
    and fx: "fx = map NDiscovery dfx @ map NReceiver rfx @ [NRunIo]"
  have "saved = True" using save assms(3) by (auto simp: saveConfig_def Let_def split: option.splits)
  with save have "loadConfig (ne_json env) disk' (nt_dir nt) any = Inr (True, ?config)"
    using save_load [OF assms(2)] by blast
  moreover have "cf_device_name (start_config nt) \<noteq> []" by (simp add: start_config_def ascii_def)
  ultimately show ?thesis
    using startDiscovery_True [OF disc] startReceiver_True [OF rcv] unfolding nt' fx
    by (auto simp: own_payload_def setTcpPort_def newDiscoveryService_def getDeviceName_def
        listenForPackages_def startTimer_def)
qed

definition sample_net_env :: net_env where
  "sample_net_env = \<lparr>ne_xdg = None, ne_home = Some [], ne_mkdir_ok = True,
     ne_json = one_value_lib (config_json [65] 50002),
     ne_cert = \<lparr>cl_valid = (\<lambda>c. Some (c = [9])), cl_key_pem = (\<lambda>_. [8]), cl_cert_pem = (\<lambda>_ _. [9])\<rparr>,
     ne_writable = (\<lambda>_. True), ne_ssl_ok = True, ne_udp = quiet_env, ne_receiver = sample_renv,
     ne_sender = sample_env\<rparr>"

definition sample_garbage :: garbage where
  "sample_garbage = \<lparr>ga_udp = replicate BUFFER_MAX_SIZE 0, ga_tcp = replicate MAX_BUFFER_SIZE 0, ga_sha = [],
     ga_u64 = 0, ga_sid = 7, ga_key = 0\<rparr>"

text \<open>Port 50001 of the configuration is taken, the next one is free.\<close>

lemma startNet_sample:
  assumes "ne_udp env = quiet_env" and "ne_receiver env = sample_renv" and "ne_ssl_ok env"
    and "ensureCertExists (ne_cert env) 0 (ne_writable env) disk [] [65] = Inr disk1"
    and "saveConfig (ne_json env) (ne_writable env) disk1 [] \<lparr>cf_device_name = [65], cf_tcp_port = Some 50002\<rparr>
      = (disk2, Inr saved)"
  shows "\<exists>nt' dfx. startNet env sample_garbage disk fresh_net = (disk2, Inr (True, nt',
      map NDiscovery dfx @ [NReceiver (RStart AcceptConnection), NRunIo]))
    \<and> cf_tcp_port (nt_config nt') = Some 50002 \<and> nt_receiver nt' = Some sample_receiver \<and> nt_dir nt' = []"
proof -
  have disc: "startDiscovery quiet_env st = (True, st\<lparr>ds_socket_open := True\<rparr>,
      listenForPackages @ sendBroadcast quiet_env (st\<lparr>ds_socket_open := True\<rparr>) @ startTimer)" for st
    by (simp add: startDiscovery_def quiet_env_def Let_def)
  have "ga_u64 sample_garbage = 0" "ga_key sample_garbage = 0" "ga_tcp sample_garbage = replicate MAX_BUFFER_SIZE 0"
    "getPort sample_receiver = 50002"
    by (simp_all add: sample_garbage_def getPort_def sample_receiver_def)
  then show ?thesis
    using assms
    by (simp add: startNet_def fresh_net_def disc sample_receiver_started Let_def)
      (metis append.assoc map_append)
qed

lemma sample_start_True:
  "\<exists>disk' nt' fx. startNet sample_net_env sample_garbage Map.empty fresh_net = (disk', Inr (True, nt', fx))
     \<and> cf_tcp_port (nt_config nt') = Some 50002 \<and> nt_receiver nt' = Some sample_receiver"
proof -
  have "ensureCertExists (ne_cert sample_net_env) 0 (ne_writable sample_net_env) Map.empty [] [65]
      = Inr [KEY_FILE \<mapsto> [8], CERT_FILE \<mapsto> [9]]"
    by (simp add: ensureCertExists_def sample_net_env_def)
  moreover have "saveConfig (ne_json sample_net_env) (ne_writable sample_net_env) disk []
      \<lparr>cf_device_name = [65], cf_tcp_port = Some 50002\<rparr> = (disk(CONFIG_FILE \<mapsto> [123]), Inr True)" for disk
    by (simp add: saveConfig_def sample_net_env_def one_value_lib_def)
  ultimately show ?thesis
    using startNet_sample [of sample_net_env Map.empty] by (fastforce simp: sample_net_env_def)
qed

theorem start_consistent_witness:
  "\<exists>disk' nt' fx. startNet sample_net_env sample_garbage Map.empty fresh_net = (disk', Inr (True, nt', fx))
     \<and> loadConfig (ne_json sample_net_env) disk' [] (nt_config fresh_net) = Inr (True, nt_config nt')
     \<and> cf_tcp_port (nt_config nt') = Some 50002"
proof -
  obtain disk' nt' fx where s: "startNet sample_net_env sample_garbage Map.empty fresh_net = (disk', Inr (True, nt', fx))"
    "cf_tcp_port (nt_config nt') = Some 50002" using sample_start_True by blast
  have j: "json_ok (ne_json sample_net_env)" "ne_writable sample_net_env (nt_dir fresh_net @ CONFIG_FILE)"
    by (simp_all add: sample_net_env_def one_value_lib_ok)
  have "nt_dir fresh_net = []" by (simp add: fresh_net_def)
  then show ?thesis
    using start_consistent [OF s(1) j, of "nt_config fresh_net"] s by auto
qed

end
