(* ===== verification/Net_System.thy ===== *)
theory Net_System
  imports Net_Core
begin

text \<open>
  The running program: the receiver's operations complete in any order with any bytes, from peers
  that show any certificate or none, the discovery service hears any datagram, and the user calls
  the methods of \<open>NetTransfer\<close> at any time. The receiver asks \<open>validatePeerCert\<close> through the
  callback that \<open>NetTransfer::start\<close> installs, which reads the trust store on the disk that the
  receiver writes to.
\<close>

section \<open>Executions\<close>

record net_sys =
  ns_net :: NetTransfer
  ns_disk :: disk
  ns_ops :: "receiver_op list"
  ns_peer :: "bytes option"  \<comment> \<open>digest of the certificate the connected peer showed\<close>
  ns_asked :: bool
  ns_offers :: "(bytes option \<times> OfferPayload) list"  \<comment> \<open>every offer shown to the user, with its peer\<close>
  ns_questions :: "bytes list"  \<comment> \<open>fingerprints of the new devices reported to the user\<close>
  ns_granted :: "bytes list"  \<comment> \<open>fingerprints the user decided to trust\<close>

fun offers_of :: "receiver_effect \<Rightarrow> OfferPayload list" where
  "offers_of (ROffer op) = [op]"
| "offers_of _ = []"

fun question_of :: "net_effect \<Rightarrow> bytes list" where
  "question_of (NNewDevice fingerprint _) = [fingerprint]"
| "question_of _ = []"

fun receiver_part :: "net_effect \<Rightarrow> receiver_effect list" where
  "receiver_part (NReceiver e) = [e]"
| "receiver_part _ = []"

definition net_absorb :: "receiver_effect list \<Rightarrow> net_sys \<Rightarrow> net_sys" where
  "net_absorb fx s =
     s\<lparr>ns_ops := ns_ops s @ concat (map rstarted_by fx), ns_asked := ns_asked s \<or> list_ex is_offer fx,
       ns_offers := ns_offers s @ map (Pair (ns_peer s)) (concat (map offers_of fx))\<rparr>"

text \<open>The callback of \<open>setOnValidateCert\<close>, and what it leaves behind when the handler has called it.\<close>

definition validating_env ::
  "json_lib \<Rightarrow> disk \<Rightarrow> bytes option \<Rightarrow> NetTransfer \<Rightarrow> receiver_env \<Rightarrow> receiver_env" where
  "validating_env json disk peer nt env =
     env\<lparr>re_valid := Some (\<lambda>name. fst (validatePeerCert json disk peer name nt))\<rparr>"

definition after_validation ::
  "json_lib \<Rightarrow> disk \<Rightarrow> bytes option \<Rightarrow> receiver_op \<Rightarrow> ec \<Rightarrow> TransferReceiver \<Rightarrow> NetTransfer
     \<Rightarrow> NetTransfer \<times> net_effect list" where
  "after_validation json disk peer op ec rcv nt =
     (case (op, ec, tr_pending_offer rcv) of
        (ReadOfferBody _, None, Some offer) \<Rightarrow> snd (validatePeerCert json disk peer (op_device_name offer) nt)
      | _ \<Rightarrow> (nt, []))"

definition net_init :: "json_lib \<Rightarrow> disk \<Rightarrow> bytes \<Rightarrow> net_sys \<Rightarrow> bool" where
  "net_init json disk0 dir s \<longleftrightarrow> (\<exists>env ga nt nt' disk fx. ne_json env = json \<and> nt_dir nt = dir
     \<and> \<not> nt_pending_trust_flag nt \<and> length (ga_tcp ga) = MAX_BUFFER_SIZE
     \<and> startNet env ga disk0 nt = (disk, Inr (True, nt', fx))
     \<and> s = net_absorb (concat (map receiver_part fx)) \<lparr>ns_net = nt', ns_disk = disk, ns_ops = [], ns_peer = None,
         ns_asked = False, ns_offers = [], ns_questions = [], ns_granted = []\<rparr>)"

inductive net_step :: "json_lib \<Rightarrow> 'ctx evp \<Rightarrow> net_sys \<Rightarrow> net_sys \<Rightarrow> bool" for json evp where
  receiver: "nt_receiver (ns_net s) = Some rcv \<Longrightarrow> op \<in> set (ns_ops s) \<Longrightarrow>
    length data \<le> receiver_reads op \<Longrightarrow> ec = None \<longrightarrow> length data = receiver_reads op \<Longrightarrow>
    op \<noteq> ServerHandshake \<longrightarrow> peer = ns_peer s \<Longrightarrow>
    receiver_handler evp (validating_env json (ns_disk s) peer (ns_net s) env) rcv (ns_disk s) op ec data
      = Inr (rcv', disk, fx) \<Longrightarrow>
    after_validation json (ns_disk s) peer op ec rcv' (ns_net s) = (nt, nfx) \<Longrightarrow>
    net_step json evp s (net_absorb fx (s\<lparr>ns_net := nt\<lparr>nt_receiver := Some rcv'\<rparr>, ns_disk := disk,
      ns_peer := peer, ns_ops := remove1 op (ns_ops s),
      ns_questions := ns_questions s @ concat (map question_of nfx)\<rparr>))"
| accept: "ns_asked s \<Longrightarrow> acceptOffer (ns_net s) = Inr fx \<Longrightarrow>
    net_step json evp s (net_absorb (concat (map receiver_part fx)) (s\<lparr>ns_asked := False\<rparr>))"
| reject: "ns_asked s \<Longrightarrow> rejectOffer (ns_net s) reason = Inr fx \<Longrightarrow>
    net_step json evp s (net_absorb (concat (map receiver_part fx)) (s\<lparr>ns_asked := False\<rparr>))"
| trust: "trustDevice json writable (ns_disk s) (ns_net s) = (disk, Inr nt) \<Longrightarrow>
    net_step json evp s (s\<lparr>ns_net := nt, ns_disk := disk,
      ns_granted := ns_granted s @ (if hasPendingTrust (ns_net s) then [nt_pending_trust_fingerprint (ns_net s)] else [])\<rparr>)"
| ignore: "net_step json evp s (s\<lparr>ns_net := ignorePendingTrust (ns_net s)\<rparr>)"
| rename: "setNetDeviceName json writable (ns_disk s) name (ns_net s) = (disk, Inr nt) \<Longrightarrow>
    net_step json evp s (s\<lparr>ns_net := nt, ns_disk := disk\<rparr>)"
| send: "sendFile ga target path (ns_net s) = (ok, nt, fx) \<Longrightarrow> net_step json evp s (s\<lparr>ns_net := nt\<rparr>)"
| package: "nt_discovery (ns_net s) = Some disc \<Longrightarrow> on_package uenv disc ec sender pkt = Inr (disc', dfx) \<Longrightarrow>
    net_step json evp s (s\<lparr>ns_net := (ns_net s)\<lparr>nt_discovery := Some disc'\<rparr>\<rparr>)"
| timer: "nt_discovery (ns_net s) = Some disc \<Longrightarrow> on_timer uenv disc ec = (disc', dfx) \<Longrightarrow>
    net_step json evp s (s\<lparr>ns_net := (ns_net s)\<lparr>nt_discovery := Some disc'\<rparr>\<rparr>)"

section \<open>The receiver and the trust store\<close>

fun busy_op :: "receiver_op \<Rightarrow> bool" where
  "busy_op (WriteAccept _) = True"
| "busy_op ReadChunkHeader = True"
| "busy_op (ReadChunkBody _) = True"
| "busy_op _ = False"

text \<open>The receiver is connected to nothing that could reach the file \<open>store\<close>.\<close>

definition away_from :: "bytes \<Rightarrow> TransferReceiver \<Rightarrow> bool" where
  "away_from store rcv \<longleftrightarrow> tr_file_path rcv \<noteq> store \<and> (\<forall>q good. tr_file rcv = Some (q, good) \<longrightarrow> q \<noteq> store)
     \<and> tr_socket rcv \<noteq> None \<and> length (tr_buffer rcv) = MAX_BUFFER_SIZE"

definition leaves_store ::
  "bytes \<Rightarrow> disk \<Rightarrow> TransferReceiver \<Rightarrow> disk \<Rightarrow> receiver_effect list \<Rightarrow> bool" where
  "leaves_store store disk rcv' disk' fx \<longleftrightarrow>
     disk' store = disk store \<and> away_from store rcv' \<and> \<not> list_ex is_offer fx"

lemma cleanup_leaves_store:
  assumes "cleanupFailedTransfer env rcv disk = Inr (rcv', disk')" and "away_from store rcv" and "store \<noteq> []"
  shows "disk' store = disk store \<and> away_from store rcv'"
  using assms by (auto simp: cleanupFailedTransfer_def run_simps remove_path_def away_from_def Let_def
      split: if_splits)

lemma fail_leaves_store:
  assumes "fail_transfer env rcv disk = Inr (rcv', disk', fx)" and "away_from store rcv" and "store \<noteq> []"
  shows "leaves_store store disk rcv' disk' fx"
proof -
  obtain rcv1 where c: "cleanupFailedTransfer env rcv disk = Inr (rcv1, disk')"
    "rcv' = rcv1\<lparr>tr_socket := Some False\<rparr>" "fx = [RComplete False [], RStart AcceptConnection]"
    using assms(1) by (auto simp: fail_transfer_def run_simps listenForConnections_def)
  with cleanup_leaves_store [OF c(1) assms(2,3)] show ?thesis by (simp add: leaves_store_def away_from_def)
qed

lemma open_out_away:
  assumes "open_out env p rcv disk = (rcv', disk')" and "away_from store rcv" and "p \<noteq> store"
  shows "disk' store = disk store \<and> away_from store rcv'"
  using assms by (auto simp: open_out_def away_from_def split: option.splits if_splits)

lemma accept_sent_leaves_store:
  assumes "on_accept_sent env rcv disk ec = Inr (rcv', disk', fx)" and "away_from store rcv"
    and "disk store \<noteq> None"
  shows "leaves_store store disk rcv' disk' fx"
proof (cases ec)
  case None
  obtain offer where offer: "tr_pending_offer rcv = Some offer"
    using assms(1) None by (cases "tr_pending_offer rcv") (auto simp: on_accept_sent_def)
  obtain p where p: "resolveFilePath (path_exists env disk) (getDownloadsFolder (re_folder env))
      (op_file_name offer) = Inr p"
    using assms(1) None by (auto simp: on_accept_sent_def offer run_simps split: option.splits)
  obtain a b where ab: "open_out env p (rcv\<lparr>tr_file_path := p\<rparr>) disk = (a, b)" by fastforce
  have o: "open_out env p (rcv\<lparr>tr_file_path := p\<rparr>) disk = (rcv', disk')" and fx: "fx = [] \<or> fx = receiveNextChunk"
    using assms(1) None by (auto simp: on_accept_sent_def offer p ab split: if_splits)
  have "p \<noteq> store" using resolved_fresh [OF p] assms(3) by auto
  moreover from this assms(2) have "away_from store (rcv\<lparr>tr_file_path := p\<rparr>)" by (simp add: away_from_def)
  ultimately show ?thesis using open_out_away [OF o] fx by (auto simp: leaves_store_def receiveNextChunk_def)
qed (use assms in \<open>auto simp: on_accept_sent_def leaves_store_def\<close>)

lemma finish_leaves_store:
  assumes "finish_transfer evp env rcv disk = Inr (rcv', disk', fx)" and "away_from store rcv"
  shows "leaves_store store disk rcv' disk' fx"
  using assms by (auto simp: finish_transfer_def run_simps remove_path_def listenForConnections_def Let_def
      leaves_store_def away_from_def split: if_splits prod.splits)

lemma chunk_header_leaves_store:
  assumes "on_chunk_header evp env rcv disk ec = Inr (rcv', disk', fx)" and "away_from store rcv" and "store \<noteq> []"
  shows "leaves_store store disk rcv' disk' fx"
proof -
  have "fail_transfer env rcv disk = Inr (rcv', disk', fx) \<or> finish_transfer evp env rcv disk = Inr (rcv', disk', fx)
      \<or> rcv' = rcv \<and> disk' = disk \<and> \<not> list_ex is_offer fx"
    using assms(1) by (auto simp: on_chunk_header_def run_simps split: if_splits)
  moreover have "leaves_store store disk rcv disk fx" if "\<not> list_ex is_offer fx"
    using that assms(2) by (simp add: leaves_store_def)
  ultimately show ?thesis
    using fail_leaves_store [OF _ assms(2,3)] finish_leaves_store [OF _ assms(2)] by blast
qed

lemma chunk_body_leaves_store:
  assumes "on_chunk_body env rcv disk ec n = Inr (rcv', disk', fx)" and "away_from store rcv" and "store \<noteq> []"
  shows "leaves_store store disk rcv' disk' fx"
proof (cases ec)
  case None
  with assms(1,2) show ?thesis
    by (auto simp: on_chunk_body_def write_out_def receiveNextChunk_def leaves_store_def away_from_def
        split: option.splits bool.splits prod.splits)
next
  case Some
  with assms fail_leaves_store show ?thesis by (simp add: on_chunk_body_def)
qed

lemma offer_body_leaves_store:
  assumes "on_offer_body env rcv disk header ec = Inr (rcv', disk', fx)" and "away_from store rcv"
  shows "disk' = disk \<and> away_from store rcv' \<and> \<not> list_ex busy_op (concat (map rstarted_by fx))
    \<and> (list_ex is_offer fx \<longrightarrow> (\<exists>offer. fx = [ROffer offer] \<and> ec = None \<and> tr_pending_offer rcv' = Some offer
        \<and> (\<forall>valid. re_valid env = Some valid \<longrightarrow> valid (op_device_name offer))))"
  using assms by (auto simp: on_offer_body_def run_simps listenForConnections_def Let_def away_from_def
      split: if_splits option.splits)

lemma away_from_buffer:
  assumes "receive_into op data rcv = Inr rcv'" and "away_from store rcv"
  shows "away_from store rcv'"
  using receive_into_buffer [OF assms(1)] assms(2) by (auto simp: away_from_def)

text \<open>One completion: the store is untouched, transfers only continue, offers were validated.\<close>

lemma receiver_handler_store:
  assumes "receiver_handler evp env rcv disk op ec data = Inr (rcv', disk', fx)" and "away_from store rcv"
    and "store \<noteq> []" and "busy_op op \<longrightarrow> disk store \<noteq> None"
  shows "disk' store = disk store" and "away_from store rcv'"
    and "list_ex is_offer fx \<Longrightarrow> \<exists>offer header. fx = [ROffer offer] \<and> op = ReadOfferBody header \<and> ec = None
      \<and> tr_pending_offer rcv' = Some offer \<and> (\<forall>valid. re_valid env = Some valid \<longrightarrow> valid (op_device_name offer))"
    and "\<not> busy_op op \<Longrightarrow> \<not> list_ex busy_op (concat (map rstarted_by fx))"
proof -
  obtain rcv1 where i: "receive_into op data rcv = Inr rcv1"
    using assms(1) by (auto simp: receiver_handler_def run_simps)
  have a: "away_from store rcv1" by (rule away_from_buffer [OF i assms(2)])
  note h = assms(1) [unfolded receiver_handler_def i andThen_simps]
  have "disk' store = disk store \<and> away_from store rcv'
    \<and> (list_ex is_offer fx \<longrightarrow> (\<exists>offer header. fx = [ROffer offer] \<and> op = ReadOfferBody header \<and> ec = None
      \<and> tr_pending_offer rcv' = Some offer \<and> (\<forall>valid. re_valid env = Some valid \<longrightarrow> valid (op_device_name offer))))
    \<and> (\<not> busy_op op \<longrightarrow> \<not> list_ex busy_op (concat (map rstarted_by fx)))"
  proof (cases op)
    case AcceptConnection
    with h a show ?thesis
      by (auto simp: on_accepted_def listenForConnections_def away_from_def split: if_splits)
  next
    case ServerHandshake
    with h a show ?thesis by (auto simp: on_server_handshake_def split: if_splits)
  next
    case ReadOfferHeader
    with h a show ?thesis by (auto simp: on_offer_header_def run_simps away_from_def split: if_splits)
  next
    case (ReadOfferBody header)
    with h have "on_offer_body env rcv1 disk header ec = Inr (rcv', disk', fx)" by simp
    from offer_body_leaves_store [OF this a] ReadOfferBody show ?thesis by auto
  next
    case (WriteAccept m)
    with h accept_sent_leaves_store [OF _ a, of env disk ec rcv' disk' fx] assms(4) show ?thesis
      by (simp add: leaves_store_def)
  next
    case (WriteReject m)
    with h a show ?thesis by (auto simp: on_reject_sent_def listenForConnections_def away_from_def)
  next
    case ReadChunkHeader
    with h chunk_header_leaves_store [OF _ a assms(3), of evp env disk ec rcv' disk' fx] show ?thesis
      by (simp add: leaves_store_def)
  next
    case (ReadChunkBody n)
    with h chunk_body_leaves_store [OF _ a assms(3), of env disk ec "length data" rcv' disk' fx] show ?thesis
      by (simp add: leaves_store_def)
  qed
  then show "disk' store = disk store" and "away_from store rcv'"
    and "list_ex is_offer fx \<Longrightarrow> \<exists>offer header. fx = [ROffer offer] \<and> op = ReadOfferBody header \<and> ec = None
      \<and> tr_pending_offer rcv' = Some offer \<and> (\<forall>valid. re_valid env = Some valid \<longrightarrow> valid (op_device_name offer))"
    and "\<not> busy_op op \<Longrightarrow> \<not> list_ex busy_op (concat (map rstarted_by fx))" by blast+
qed

section \<open>The invariant\<close>

abbreviation store_file :: "bytes \<Rightarrow> bytes" where
  "store_file dir \<equiv> dir @ TRUSTED_FILE"

lemma store_file_names [simp]:
  "store_file dir \<noteq> []" "store_file dir \<noteq> dir @ CONFIG_FILE"
  "store_file dir \<noteq> dir @ KEY_FILE" "store_file dir \<noteq> dir @ CERT_FILE"
  by (simp_all add: length_neq)

text \<open>Who may send: the devices of the store at the start and those the user has decided to trust.\<close>

definition admitted :: "json_lib \<Rightarrow> disk \<Rightarrow> bytes \<Rightarrow> bytes list \<Rightarrow> bytes \<Rightarrow> bool" where
  "admitted json disk0 dir granted fp \<longleftrightarrow> trusted json disk0 dir fp \<or> fp \<in> set granted"

definition services_up :: "bytes \<Rightarrow> NetTransfer \<Rightarrow> bool" where
  "services_up dir nt \<longleftrightarrow> nt_dir nt = dir \<and> nt_io_running nt \<and> nt_discovery nt \<noteq> None
     \<and> (\<exists>rcv. nt_receiver nt = Some rcv \<and> away_from (store_file dir) rcv)"

definition questions_asked :: "net_sys \<Rightarrow> bool" where
  "questions_asked s \<longleftrightarrow> set (ns_granted s) \<subseteq> set (ns_questions s)
     \<and> (nt_pending_trust_flag (ns_net s) \<longrightarrow> nt_pending_trust_fingerprint (ns_net s) \<in> set (ns_questions s))"

definition net_inv :: "json_lib \<Rightarrow> disk \<Rightarrow> bytes \<Rightarrow> net_sys \<Rightarrow> bool" where
  "net_inv json disk0 dir s \<longleftrightarrow> services_up dir (ns_net s) \<and> questions_asked s
     \<and> store_readable json (ns_disk s) dir
     \<and> (ns_asked s \<or> list_ex busy_op (ns_ops s) \<longrightarrow> ns_disk s (store_file dir) \<noteq> None)
     \<and> (\<forall>fp. trusted json (ns_disk s) dir fp \<longrightarrow> admitted json disk0 dir (ns_granted s) fp)
     \<and> (\<forall>(peer, offer) \<in> set (ns_offers s). peer \<noteq> None
          \<and> admitted json disk0 dir (ns_granted s) (getCertFingerprint peer))"

lemma net_absorb_simps [simp]:
  "ns_net (net_absorb fx s) = ns_net s" "ns_disk (net_absorb fx s) = ns_disk s"
  "ns_peer (net_absorb fx s) = ns_peer s" "ns_questions (net_absorb fx s) = ns_questions s"
  "ns_granted (net_absorb fx s) = ns_granted s"
  "ns_ops (net_absorb fx s) = ns_ops s @ concat (map rstarted_by fx)"
  "ns_asked (net_absorb fx s) \<longleftrightarrow> ns_asked s \<or> list_ex is_offer fx"
  "ns_offers (net_absorb fx s) = ns_offers s @ map (Pair (ns_peer s)) (concat (map offers_of fx))"
  by (simp_all add: net_absorb_def)

lemma same_store:
  assumes "disk' (store_file dir) = disk (store_file dir)"
  shows "load_trust_store json disk' dir = load_trust_store json disk dir"
    and "trusted json disk' dir fp = trusted json disk dir fp"
    and "store_readable json disk' dir = store_readable json disk dir"
  using assms by (simp_all add: load_trust_store_def trusted_def store_readable_def)

lemma trusted_store_exists: "trusted json disk dir fp \<Longrightarrow> disk (store_file dir) \<noteq> None"
  by (auto simp: trusted_def load_trust_store_def json_empty_def split: option.splits)

lemma validatePeerCert_accepts:
  "fst (validatePeerCert json disk peer name nt) \<Longrightarrow>
     peer \<noteq> None \<and> trusted json disk (nt_dir nt) (getCertFingerprint peer)"
  by (auto simp: validatePeerCert_def Let_def trusted_def fingerprint_empty split: if_splits)

lemma validatePeerCert_state:
  assumes "snd (validatePeerCert json disk peer name nt) = (nt', fx)"
  shows "nt_dir nt' = nt_dir nt \<and> nt_io_running nt' = nt_io_running nt \<and> nt_discovery nt' = nt_discovery nt
    \<and> (nt_pending_trust_flag nt' \<longrightarrow> (nt_pending_trust_fingerprint nt' \<in> set (concat (map question_of fx))
        \<or> nt_pending_trust_flag nt \<and> nt_pending_trust_fingerprint nt' = nt_pending_trust_fingerprint nt))"
  using assms by (auto simp: validatePeerCert_def Let_def split: if_splits)

lemma after_validation_state:
  assumes "after_validation json disk peer op ec rcv nt = (nt', fx)"
  shows "nt_dir nt' = nt_dir nt \<and> nt_io_running nt' = nt_io_running nt \<and> nt_discovery nt' = nt_discovery nt
    \<and> (nt_pending_trust_flag nt' \<longrightarrow> (nt_pending_trust_fingerprint nt' \<in> set (concat (map question_of fx))
        \<or> nt_pending_trust_flag nt \<and> nt_pending_trust_fingerprint nt' = nt_pending_trust_fingerprint nt))"
  using assms validatePeerCert_state
  by (fastforce simp: after_validation_def split: receiver_op.splits option.splits)

lemma net_inv_receiver:
  assumes inv: "net_inv json disk0 dir s" and rcv: "nt_receiver (ns_net s) = Some rcv" and op: "op \<in> set (ns_ops s)"
    and h: "receiver_handler evp (validating_env json (ns_disk s) peer (ns_net s) env) rcv (ns_disk s) op ec data
      = Inr (rcv', disk, fx)"
    and v: "after_validation json (ns_disk s) peer op ec rcv' (ns_net s) = (nt, nfx)"
  shows "net_inv json disk0 dir (net_absorb fx (s\<lparr>ns_net := nt\<lparr>nt_receiver := Some rcv'\<rparr>, ns_disk := disk,
      ns_peer := peer, ns_ops := remove1 op (ns_ops s),
      ns_questions := ns_questions s @ concat (map question_of nfx)\<rparr>))"
proof -
  let ?T = "store_file dir"
  have up: "services_up dir (ns_net s)" and q: "questions_asked s"
    and sr: "store_readable json (ns_disk s) dir"
    and ad: "\<And>fp. trusted json (ns_disk s) dir fp \<Longrightarrow> admitted json disk0 dir (ns_granted s) fp"
    and off: "\<forall>(peer, offer) \<in> set (ns_offers s). peer \<noteq> None
          \<and> admitted json disk0 dir (ns_granted s) (getCertFingerprint peer)"
    and b: "ns_asked s \<or> list_ex busy_op (ns_ops s) \<longrightarrow> ns_disk s ?T \<noteq> None"
    using inv unfolding net_inv_def by blast+
  have away: "away_from ?T rcv" "nt_dir (ns_net s) = dir" using up rcv by (auto simp: services_up_def)
  have busy: "busy_op op \<longrightarrow> ns_disk s ?T \<noteq> None" using b op by (auto simp: list_ex_iff)
  note r = receiver_handler_store [OF h away(1) store_file_names(1) busy]
  have offer: "\<exists>offer. fx = [ROffer offer] \<and> peer \<noteq> None \<and> trusted json (ns_disk s) dir (getCertFingerprint peer)"
    if "list_ex is_offer fx"
    using r(3) [OF that] validatePeerCert_accepts [of json "ns_disk s" peer _ "ns_net s"] away(2)
    by (auto simp: validating_env_def)
  have noffer: "concat (map offers_of fx) = []" if "\<not> list_ex is_offer fx"
    using that by (induction fx) (auto elim: offers_of.elims is_offer.elims)
  have "services_up dir (nt\<lparr>nt_receiver := Some rcv'\<rparr>)"
    using up r(2) after_validation_state [OF v] by (simp add: services_up_def)
  moreover have "disk ?T \<noteq> None" if "ns_asked s \<or> list_ex is_offer fx \<or> list_ex busy_op (remove1 op (ns_ops s))
      \<or> list_ex busy_op (concat (map rstarted_by fx))"
  proof -
    have "ns_disk s ?T \<noteq> None" if "list_ex is_offer fx" using offer [OF that] trusted_store_exists by blast
    moreover have "list_ex busy_op (remove1 op (ns_ops s)) \<Longrightarrow> list_ex busy_op (ns_ops s)"
      using set_remove1_subset [of op "ns_ops s"] by (auto simp: list_ex_iff)
    ultimately have "ns_disk s ?T \<noteq> None" using that b busy r(4) by blast
    with r(1) show ?thesis by simp
  qed
  moreover have "\<forall>(p, offer) \<in> set (ns_offers s @ map (Pair peer) (concat (map offers_of fx))). p \<noteq> None
          \<and> admitted json disk0 dir (ns_granted s) (getCertFingerprint p)"
  proof (cases "list_ex is_offer fx")
    case True
    with offer [OF True] ad off show ?thesis by auto
  qed (use off noffer in simp)
  ultimately show ?thesis
    using q after_validation_state [OF v] sr ad same_store [where disk' = disk and disk = "ns_disk s" and dir = dir, OF r(1)]
    by (auto simp: net_inv_def questions_asked_def)
qed

lemma net_inv_trust:
  assumes "json_ok json" and inv: "net_inv json disk0 dir s"
    and t: "trustDevice json writable (ns_disk s) (ns_net s) = (disk, Inr nt)"
  shows "net_inv json disk0 dir (s\<lparr>ns_net := nt, ns_disk := disk,
      ns_granted := ns_granted s @ (if hasPendingTrust (ns_net s) then [nt_pending_trust_fingerprint (ns_net s)] else [])\<rparr>)"
proof (cases "nt_pending_trust_flag (ns_net s) \<and> writable (store_file dir)")
  case True
  have sr: "store_readable json (ns_disk s) (nt_dir (ns_net s))" and d: "nt_dir (ns_net s) = dir"
    using inv by (auto simp: net_inv_def services_up_def)
  with True have w: "writable (nt_dir (ns_net s) @ TRUSTED_FILE)" by simp
  note u = trustDevice_store [OF assms(1) _ w sr t]
  obtain v where v: "jl_dump json v = disk (store_file dir)" "disk (store_file dir) \<noteq> None"
    using t True d by (auto simp: trustDevice_def Let_def split: sum.splits option.splits)
  then have "store_readable json disk dir" using assms(1) by (auto simp: store_readable_def json_ok_def)
  moreover have "admitted json disk0 dir (ns_granted s @ [nt_pending_trust_fingerprint (ns_net s)]) fp"
    if "trusted json disk dir fp" for fp
    using that u(3) True d inv by (auto simp: trusted_def net_inv_def admitted_def split: if_splits)
  moreover have "services_up dir nt" using u(1) True inv by (simp add: net_inv_def services_up_def)
  ultimately show ?thesis
    using inv True u(1) v(2) by (auto simp: net_inv_def questions_asked_def hasPendingTrust_def admitted_def)
next
  case False
  have d: "nt_dir (ns_net s) = dir" using inv by (simp add: net_inv_def services_up_def)
  have "disk = ns_disk s \<and> (nt = ns_net s \<or> nt = (ns_net s)\<lparr>nt_pending_trust_flag := False\<rparr>)"
    using t False d by (auto simp: trustDevice_def Let_def split: sum.splits option.splits if_splits)
  with inv show ?thesis
    by (auto simp: net_inv_def services_up_def questions_asked_def hasPendingTrust_def admitted_def)
qed

lemma saveConfig_store:
  "saveConfig json writable disk dir config = (disk', r) \<Longrightarrow> disk' (store_file dir) = disk (store_file dir)"
  by (auto simp: saveConfig_def Let_def split: if_splits option.splits)

lemma net_inv_rename:
  assumes inv: "net_inv json disk0 dir s"
    and r: "setNetDeviceName json writable (ns_disk s) name (ns_net s) = (disk, Inr nt)"
  shows "net_inv json disk0 dir (s\<lparr>ns_net := nt, ns_disk := disk\<rparr>)"
proof -
  have d: "nt_dir (ns_net s) = dir" using inv by (simp add: net_inv_def services_up_def)
  let ?nt = "(ns_net s)\<lparr>nt_config := (nt_config (ns_net s))\<lparr>cf_device_name := name\<rparr>,
    nt_discovery := map_option (setDeviceName name) (nt_discovery (ns_net s))\<rparr>"
  obtain saved where "saveConfig json writable (ns_disk s) dir (nt_config ?nt) = (disk, saved)" and nt: "nt = ?nt"
    using r d by (auto simp: setNetDeviceName_def run_simps Let_def split: prod.splits)
  then have eq: "disk (store_file dir) = ns_disk s (store_file dir)" using saveConfig_store by blast
  show ?thesis
    using inv unfolding net_inv_def nt
    by (simp add: same_store [where disk' = disk and disk = "ns_disk s" and dir = dir, OF eq] eq services_up_def questions_asked_def)
qed

lemma answers_effects:
  assumes "acceptOffer nt = Inr fx \<or> rejectOffer nt reason = Inr fx"
  shows "\<not> list_ex is_offer (concat (map receiver_part fx))" and "concat (map offers_of (concat (map receiver_part fx))) = []"
  using assms by (auto simp: acceptOffer_def rejectOffer_def accept_def reject_def run_simps split: option.splits if_splits)

lemma net_inv_step:
  assumes "json_ok json" and inv: "net_inv json disk0 dir s" and "net_step json evp s t"
  shows "net_inv json disk0 dir t"
  using assms(3)
proof cases
  case (receiver rcv op data ec peer env rcv' disk fx nt nfx)
  then show ?thesis using net_inv_receiver [OF inv receiver(2,3,7,8)] by simp
next
  case (accept fx)
  with inv answers_effects [of "ns_net s" fx] show ?thesis by (auto simp: net_inv_def questions_asked_def)
next
  case (reject reason fx)
  with inv answers_effects [of "ns_net s" fx reason] show ?thesis by (auto simp: net_inv_def questions_asked_def)
next
  case (trust writable disk nt)
  with net_inv_trust [OF assms(1) inv] show ?thesis by simp
next
  case (rename writable name disk nt)
  with net_inv_rename [OF inv] show ?thesis by simp
qed (use inv in \<open>auto simp: net_inv_def services_up_def questions_asked_def ignorePendingTrust_def sendFile_def\<close>)

lemma ensureCertExists_store:
  "ensureCertExists lib random writable disk dir name = Inr disk' \<Longrightarrow> disk' (store_file dir) = disk (store_file dir)"
  by (auto simp: ensureCertExists_def Let_def split: option.splits if_splits)

lemma net_inv_init:
  assumes "net_init json disk0 dir s" and "store_readable json disk0 dir"
  shows "net_inv json disk0 dir s"
proof -
  obtain env ga nt nt' disk fx where nt: "nt_dir nt = dir" "\<not> nt_pending_trust_flag nt"
    and ga: "length (ga_tcp ga) = MAX_BUFFER_SIZE" and start: "startNet env ga disk0 nt = (disk, Inr (True, nt', fx))"
    and s: "s = net_absorb (concat (map receiver_part fx)) \<lparr>ns_net = nt', ns_disk = disk, ns_ops = [],
      ns_peer = None, ns_asked = False, ns_offers = [], ns_questions = [], ns_granted = []\<rparr>"
    using assms(1) unfolding net_init_def by blast
  show ?thesis
  proof (rule startNet_started [OF start])
    fix port disk1 disc rcv dfx rfx saved
    let ?new = "newTransferReceiver port (ga_u64 ga) (ga_u64 ga) (ga_tcp ga)"
    assume cert: "ensureCertExists (ne_cert env) (ga_key ga) (ne_writable env) disk0 (nt_dir nt)
        (cf_device_name (start_config nt)) = Inr disk1"
      and rcv: "startReceiver (ne_receiver env) ?new = (True, rcv, rfx)"
      and save: "saveConfig (ne_json env) (ne_writable env) disk1 (nt_dir nt)
        ((start_config nt)\<lparr>cf_tcp_port := Some (getPort rcv)\<rparr>) = (disk, Inr saved)"
      and nt': "nt' = nt\<lparr>nt_config := (start_config nt)\<lparr>cf_tcp_port := Some (getPort rcv)\<rparr>,
        nt_discovery := Some (setTcpPort (getPort rcv) disc), nt_receiver := Some rcv, nt_io_running := True\<rparr>"
      and fx: "fx = map NDiscovery dfx @ map NReceiver rfx @ [NRunIo]"
    have eq: "disk (store_file dir) = disk0 (store_file dir)"
      using ensureCertExists_store cert saveConfig_store [OF save] nt(1) by simp
    have away: "away_from (store_file dir) rcv"
      using rcv ga by (auto simp: startReceiver_def listenForConnections_def newTransferReceiver_def away_from_def
          split: option.splits)
    have part: "concat (map receiver_part fx) = [RStart AcceptConnection]"
      using startReceiver_True [OF rcv] by (simp add: fx comp_def)
    show ?thesis
      using assms(2) nt away unfolding s part net_inv_def nt'
      by (simp add: same_store [where disk' = disk and disk = disk0 and dir = dir, OF eq] services_up_def
          questions_asked_def admitted_def)
  qed
qed

interpretation net_machine: state_machine "net_init json disk0 dir" "net_step json evp"
  "\<lambda>s. json_ok json \<and> store_readable json disk0 dir \<longrightarrow> net_inv json disk0 dir s" for json disk0 dir evp
  by unfold_locales (auto intro: net_inv_init net_inv_step)

section \<open>The offer of a trusted device\<close>

lemma receiver_completes:
  assumes "nt_receiver (ns_net s) = Some rcv" and "ns_ops s = [op]" and "length data = receiver_reads op"
    and "op \<noteq> ServerHandshake \<longrightarrow> peer = ns_peer s"
    and "receiver_handler evp (validating_env json (ns_disk s) peer (ns_net s) env) rcv (ns_disk s) op None data
      = Inr (rcv', disk, fx)"
    and "after_validation json (ns_disk s) peer op None rcv' (ns_net s) = (ns_net s, [])"
  shows "\<exists>t. net_step json evp s t \<and> ns_net t = (ns_net s)\<lparr>nt_receiver := Some rcv'\<rparr> \<and> ns_disk t = disk
    \<and> ns_peer t = peer \<and> ns_ops t = concat (map rstarted_by fx)
    \<and> ns_offers t = ns_offers s @ map (Pair peer) (concat (map offers_of fx))
    \<and> (ns_asked t \<longleftrightarrow> ns_asked s \<or> list_ex is_offer fx)"
proof -
  have "op \<in> set (ns_ops s)" "length data \<le> receiver_reads op"
    "None = (None :: ec) \<longrightarrow> length data = receiver_reads op" using assms(2,3) by simp_all
  from net_step.receiver [OF assms(1) this assms(4-6)] show ?thesis
    using assms(2) by (intro exI conjI) (assumption | simp)+
qed

lemma no_validation:
  "\<forall>h. op \<noteq> ReadOfferBody h \<Longrightarrow> after_validation json disk peer op ec rcv nt = (nt, [])"
  by (cases op) (auto simp: after_validation_def)

lemma trusted_offer_run:
  assumes "nt_receiver (ns_net s) = Some rcv" and "length (tr_buffer rcv) = MAX_BUFFER_SIZE"
    and "ns_ops s = [AcceptConnection]" and "wf_offer offer" and "length (serializeOffer offer) \<le> 32746"
    and "trusted json (ns_disk s) (nt_dir (ns_net s)) (getCertFingerprint (Some digest))" and "digest \<noteq> []"
  shows "\<exists>t. (net_step json evp)\<^sup>*\<^sup>* s t \<and> ns_asked t \<and> ns_offers t = ns_offers s @ [(Some digest, offer)]"
proof -
  let ?sid = "0 :: u64" and ?env = "undefined :: receiver_env"
  let ?pl = "serializeOffer offer"
  let ?h = "take 22 (frame TRANSFER_OFFER ?sid ?pl)"
  obtain s1 where s1: "net_step json evp s s1" "nt_receiver (ns_net s1) = Some (rcv\<lparr>tr_socket := Some True\<rparr>)"
      "nt_dir (ns_net s1) = nt_dir (ns_net s)" "ns_disk s1 = ns_disk s" "ns_ops s1 = [ServerHandshake]"
      "ns_offers s1 = ns_offers s"
    using receiver_completes [where evp = evp and json = json and peer = "ns_peer s" and env = ?env,
        OF assms(1,3) _ _ connection_accepted [OF assms(2)] no_validation]
    by auto
  have l1: "length (tr_buffer (rcv\<lparr>tr_socket := Some True\<rparr>)) = MAX_BUFFER_SIZE" using assms(2) by simp
  obtain s2 where s2: "net_step json evp s1 s2" "nt_receiver (ns_net s2) = Some (rcv\<lparr>tr_socket := Some True\<rparr>)"
      "nt_dir (ns_net s2) = nt_dir (ns_net s)" "ns_disk s2 = ns_disk s" "ns_ops s2 = [ReadOfferHeader]"
      "ns_peer s2 = Some digest" "ns_offers s2 = ns_offers s"
    using receiver_completes [where evp = evp and json = json and peer = "Some digest" and env = ?env,
        OF s1(2,5) _ _ handshake_completed [OF l1] no_validation] s1
    by auto
  have h: "length ?h = receiver_reads ReadOfferHeader" by simp
  obtain s3 rcv3 where s3: "net_step json evp s2 s3" "nt_receiver (ns_net s3) = Some rcv3"
      "length (tr_buffer rcv3) = MAX_BUFFER_SIZE" "nt_dir (ns_net s3) = nt_dir (ns_net s)" "ns_disk s3 = ns_disk s"
      "ns_ops s3 = [ReadOfferBody (header_for TRANSFER_OFFER ?sid ?pl)]" "ns_peer s3 = Some digest"
      "ns_offers s3 = ns_offers s"
    using receiver_completes [where evp = evp and json = json and peer = "Some digest" and env = ?env,
        OF s2(2,5) h _ offer_header_read [OF l1 assms(5)] no_validation]
      s2 l1 by auto
  have n: "unat (of_nat (length ?pl) :: u32) = length ?pl" using assms(5) by (intro unat_of_nat_32) simp
  have "getCertFingerprint (Some digest) \<noteq> []" using assms(7) by (simp add: fingerprint_empty)
  then have v: "validatePeerCert json (ns_disk s3) (Some digest) name (ns_net s3) = (True, ns_net s3, [])" for name
    using assms(6) s3(4,5) by (simp add: validatePeerCert_def trusted_def Let_def)
  have b: "length ?pl = receiver_reads (ReadOfferBody (header_for TRANSFER_OFFER ?sid ?pl))" by (simp add: n)
  let ?op = "ReadOfferBody (header_for TRANSFER_OFFER ?sid ?pl)"
  let ?rcv = "rcv3\<lparr>tr_buffer := overwrite 22 ?pl (tr_buffer rcv3), tr_pending_offer := Some offer,
    tr_file_size := op_file_size offer\<rparr>"
  have body: "receiver_handler evp (validating_env json (ns_disk s3) (Some digest) (ns_net s3) ?env) rcv3 (ns_disk s3)
      ?op None ?pl = Inr (?rcv, ns_disk s3, [ROffer offer])"
    by (rule offer_body_read [OF s3(3) assms(4,5)]) (simp_all add: validating_env_def v)
  have "after_validation json (ns_disk s3) (Some digest) ?op None ?rcv (ns_net s3) = (ns_net s3, [])"
    by (simp add: after_validation_def v)
  moreover have "?op \<noteq> ServerHandshake \<longrightarrow> Some digest = ns_peer s3" by (simp only: s3(7) simp_thms)
  ultimately obtain t where t: "net_step json evp s3 t" "ns_asked t \<longleftrightarrow> ns_asked s3 \<or> list_ex is_offer [ROffer offer]"
      "ns_offers t = ns_offers s3 @ map (Pair (Some digest)) (concat (map offers_of [ROffer offer]))"
    using receiver_completes [OF s3(2,6) b _ body] by blast
  have "(net_step json evp)\<^sup>*\<^sup>* s s3"
    by (rule rtranclp.rtrancl_into_rtrancl [OF rtranclp.rtrancl_into_rtrancl [OF r_into_rtranclp]])
      (fact s1(1) s2(1) s3(1))+
  then have "(net_step json evp)\<^sup>*\<^sup>* s t" using t(1) by (rule rtranclp.rtrancl_into_rtrancl)
  then show ?thesis by (intro exI [of _ t]) (simp add: t(2,3) s3(8))
qed

text \<open>A program started with one trusted device in its store.\<close>

definition trusting_env :: net_env where
  "trusting_env = sample_net_env\<lparr>ne_json := trust_lib [7], ne_writable := (\<lambda>p. p \<noteq> CONFIG_FILE)\<rparr>"

definition trusting_disk :: disk where
  "trusting_disk = [TRUSTED_FILE \<mapsto> [123]]"

definition small_offer :: OfferPayload where
  "small_offer = \<lparr>op_file_size = 3, op_resume_offset = 0, op_sha256 = replicate 32 0, op_file_name = [97],
     op_device_name = [66]\<rparr>"

lemma trusting_start:
  "\<exists>s. net_init (trust_lib [7]) trusting_disk [] s \<and> ns_ops s = [AcceptConnection] \<and> ns_offers s = []
     \<and> nt_receiver (ns_net s) = Some sample_receiver \<and> nt_dir (ns_net s) = []
     \<and> trusted (trust_lib [7]) (ns_disk s) [] (getCertFingerprint (Some [7]))"
proof -
  let ?disk = "trusting_disk(KEY_FILE \<mapsto> [8], CERT_FILE \<mapsto> [9])"
  have w: "ensureCertExists (ne_cert trusting_env) 0 (ne_writable trusting_env) trusting_disk [] [65] = Inr ?disk"
    "saveConfig (ne_json trusting_env) (ne_writable trusting_env) ?disk []
      \<lparr>cf_device_name = [65], cf_tcp_port = Some 50002\<rparr> = (?disk, Inr False)"
    by (simp_all add: ensureCertExists_def saveConfig_def trusting_env_def trusting_disk_def sample_net_env_def)
  obtain nt dfx where st: "startNet trusting_env sample_garbage trusting_disk fresh_net
      = (?disk, Inr (True, nt, map NDiscovery dfx @ [NReceiver (RStart AcceptConnection), NRunIo]))"
    and nt: "nt_receiver nt = Some sample_receiver" "nt_dir nt = []"
    using startNet_sample [OF _ _ _ w] by (auto simp: trusting_env_def sample_net_env_def)
  let ?s = "net_absorb (concat (map receiver_part (map NDiscovery dfx @ [NReceiver (RStart AcceptConnection), NRunIo])))
    \<lparr>ns_net = nt, ns_disk = ?disk, ns_ops = [], ns_peer = None, ns_asked = False, ns_offers = [],
     ns_questions = [], ns_granted = []\<rparr>"
  have "ne_json trusting_env = trust_lib [7]" "nt_dir fresh_net = []" "\<not> nt_pending_trust_flag fresh_net"
    "length (ga_tcp sample_garbage) = MAX_BUFFER_SIZE"
    by (simp_all add: trusting_env_def fresh_net_def sample_garbage_def)
  then have "net_init (trust_lib [7]) trusting_disk [] ?s" unfolding net_init_def using st by blast
  moreover have "trusted (trust_lib [7]) ?disk [] (getCertFingerprint (Some [7]))"
    by (simp add: trusted_def load_trust_store_def trusting_disk_def one_value_lib_def)
  ultimately show ?thesis using nt by (intro exI [of _ ?s]) (simp add: comp_def)
qed

lemma trusting_store: "store_readable (trust_lib [7]) trusting_disk []"
  by (simp add: store_readable_def trusting_disk_def one_value_lib_def)

section \<open>Properties\<close>

text \<open>
  C5. Only devices the user trusts can offer files. In every execution of the started program,
  against any peers, with any files received and any answers of the user: every offer shown to
  the user came over a connection whose peer showed a certificate, and its fingerprint was in
  the trust store when the program started or the user has decided to trust it since; and each
  such decision was about a fingerprint that had been reported as a new device. The store itself
  holds nothing else, so nobody gets into it by sending a file.
\<close>

theorem only_trusted_offers:
  assumes "json_ok json" and "store_readable json disk0 dir"
    and "net_init json disk0 dir s0" and "(net_step json evp)\<^sup>*\<^sup>* s0 s"
  shows "(\<forall>peer offer. (peer, offer) \<in> set (ns_offers s) \<longrightarrow> (\<exists>digest. peer = Some digest \<and>
        (trusted json disk0 dir (getCertFingerprint peer) \<or> getCertFingerprint peer \<in> set (ns_granted s))))
    \<and> (\<forall>fp. trusted json (ns_disk s) dir fp \<longrightarrow> trusted json disk0 dir fp \<or> fp \<in> set (ns_granted s))
    \<and> set (ns_granted s) \<subseteq> set (ns_questions s)"
  using net_machine.reachable_inv [OF assms(3,4)] assms(1,2)
  by (fastforce simp: net_inv_def admitted_def questions_asked_def)

theorem only_trusted_offers_witness:
  "\<exists>s0 s. net_init (trust_lib [7]) trusting_disk [] s0 \<and> (net_step (trust_lib [7]) pad_evp)\<^sup>*\<^sup>* s0 s
     \<and> ns_offers s = [(Some [7], small_offer)] \<and> set (ns_granted s) \<subseteq> set (ns_questions s)"
proof -
  obtain s0 where s0: "net_init (trust_lib [7]) trusting_disk [] s0" "ns_ops s0 = [AcceptConnection]" "ns_offers s0 = []"
    "nt_receiver (ns_net s0) = Some sample_receiver" "nt_dir (ns_net s0) = []"
    "trusted (trust_lib [7]) (ns_disk s0) [] (getCertFingerprint (Some [7]))"
    using trusting_start by blast
  have o: "wf_offer small_offer" "length (serializeOffer small_offer) \<le> 32746"
    "length (tr_buffer sample_receiver) = MAX_BUFFER_SIZE"
    by (simp_all add: small_offer_def wf_offer_def serializeOffer_def sample_receiver_def newTransferReceiver_def)
  obtain s where s: "(net_step (trust_lib [7]) pad_evp)\<^sup>*\<^sup>* s0 s" "ns_offers s = [(Some [7], small_offer)]"
    using trusted_offer_run [OF s0(4) o(3) s0(2) o(1,2), of "trust_lib [7]" "[7]" pad_evp] s0(3,5,6) by auto
  then show ?thesis
    using s0(1) only_trusted_offers [OF one_value_lib_ok trusting_store s0(1) s(1)] by blast
qed



end
