(* ===== verification/Sender_Objects.thy ===== *)
theory Sender_Objects
  imports Net_Core
begin

text \<open>
  The sender objects that \<open>NetTransfer::sendFile\<close> creates (\<open>src/src/core/NetTransfer.cpp\<close>). The member
  \<open>active_sender\<close> is the only owner of its object, so assigning it destroys the sender before it,
  while the handlers of that sender's operations hold a plain \<open>this\<close> pointer; and the function that
  \<open>sendFile\<close> posts starts whatever sender is active when it runs. Objects live in a heap: an address
  without object was never allocated or has been destroyed.
\<close>

section \<open>Objects\<close>

record sender_objects =
  so_heap :: "nat \<Rightarrow> sender_sys option"
  so_next :: nat
  so_active :: "nat option"
  so_posts :: nat  \<comment> \<open>functions posted and not yet run\<close>
  so_queued :: "(nat \<times> sender_op) list"  \<comment> \<open>operations whose object has been destroyed\<close>

definition no_objects :: sender_objects where
  "no_objects = \<lparr>so_heap = Map.empty, so_next = 0, so_active = None, so_posts = 0, so_queued = []\<rparr>"

text \<open>Destroying a sender closes its socket; the handlers of its operations are still to be called.\<close>

definition destroy :: "nat \<Rightarrow> sender_objects \<Rightarrow> sender_objects" where
  "destroy i h =
     (case so_heap h i of
        None \<Rightarrow> h
      | Some x \<Rightarrow> h\<lparr>so_heap := (so_heap h)(i := None), so_queued := so_queued h @ map (Pair i) (ss_ops x)\<rparr>)"

definition assign_active :: "TransferSender \<Rightarrow> sender_objects \<Rightarrow> sender_objects" where
  "assign_active st h =
     (let i = so_next h;
          h = (case so_active h of None \<Rightarrow> h | Some old \<Rightarrow> destroy old h)
      in h\<lparr>so_heap := (so_heap h)(i \<mapsto> \<lparr>ss_state = st, ss_ops = [], ss_log = []\<rparr>), so_next := Suc i,
           so_active := Some i, so_posts := Suc (so_posts h)\<rparr>)"

text \<open>The posted function: \<open>active_sender->start()\<close>, whose result is dropped.\<close>

definition run_posted :: "'ctx evp \<Rightarrow> sender_env \<Rightarrow> sender_objects \<Rightarrow> sender_objects run" where
  "run_posted evp env h =
     (case so_active h of
        None \<Rightarrow> Inl OutOfBounds
      | Some i \<Rightarrow>
          (case so_heap h i of
             None \<Rightarrow> Inl OutOfBounds
           | Some x \<Rightarrow>
               andThen (startSender evp env (ss_state x)) (\<lambda>(_, st, fx).
               Inr (h\<lparr>so_posts := so_posts h - 1,
                      so_heap := (so_heap h)(i \<mapsto> perform fx (x\<lparr>ss_state := st\<rparr>))\<rparr>))))"

text \<open>A completed operation calls its handler on the object it was started for.\<close>

definition complete_op ::
  "sender_env \<Rightarrow> nat \<Rightarrow> sender_op \<Rightarrow> ec \<Rightarrow> bytes \<Rightarrow> sender_objects \<Rightarrow> sender_objects run" where
  "complete_op env i op ec data h =
     (case so_heap h i of
        None \<Rightarrow> Inl OutOfBounds
      | Some x \<Rightarrow>
          andThen (sender_handler env (ss_state x) op ec data) (\<lambda>(st, fx).
          Inr (h\<lparr>so_heap := (so_heap h)(i \<mapsto>
                 perform fx (x\<lparr>ss_state := st, ss_ops := remove1 op (ss_ops x)\<rparr>))\<rparr>)))"

definition stop_active :: "sender_env \<Rightarrow> sender_objects \<Rightarrow> sender_objects" where
  "stop_active env h =
     (case so_active h of
        None \<Rightarrow> h
      | Some i \<Rightarrow> h\<lparr>so_heap := (so_heap h)(i := map_option
                      (\<lambda>x. x\<lparr>ss_state := snd (stopSender env (ss_state x))\<rparr>) (so_heap h i))\<rparr>)"

section \<open>Executions\<close>

definition pending :: "sender_objects \<Rightarrow> nat \<Rightarrow> sender_op \<Rightarrow> bool" where
  "pending h i op \<longleftrightarrow> (case so_heap h i of None \<Rightarrow> (i, op) \<in> set (so_queued h) | Some x \<Rightarrow> op \<in> set (ss_ops x))"

text \<open>No sender works: nothing is posted and the active sender has no operation outstanding.\<close>

definition idle :: "sender_objects \<Rightarrow> bool" where
  "idle h \<longleftrightarrow> so_posts h = 0 \<and>
     (case so_active h of None \<Rightarrow> True
      | Some i \<Rightarrow> (case so_heap h i of None \<Rightarrow> True | Some x \<Rightarrow> ss_ops x = []))"

text \<open>
  A step ends in the next state or in a fault; \<open>files\<close> is what can be read from the disk, and a patient
  user sends only while no sender works.
\<close>

inductive obj_step :: "'ctx evp \<Rightarrow> disk \<Rightarrow> bool \<Rightarrow> sender_objects \<Rightarrow> sender_objects run \<Rightarrow> bool"
  for evp files patient where
  send: "patient \<longrightarrow> idle h \<Longrightarrow> length (ga_tcp ga) = MAX_BUFFER_SIZE \<Longrightarrow>
    sendFile ga target path nt = (ok, nt', fx) \<Longrightarrow> nt_active_sender nt' = Some st \<Longrightarrow>
    obj_step evp files patient h (Inr (assign_active st h))"
| post: "0 < so_posts h \<Longrightarrow> se_file env = files \<Longrightarrow> obj_step evp files patient h (run_posted evp env h)"
| completed: "pending h i op \<Longrightarrow> length data \<le> sender_reads op \<Longrightarrow> ec = None \<longrightarrow> length data = sender_reads op \<Longrightarrow>
    obj_step evp files patient h (complete_op env i op ec data h)"
| stop: "obj_step evp files patient h (Inr (stop_active env h))"

definition obj_next :: "'ctx evp \<Rightarrow> disk \<Rightarrow> bool \<Rightarrow> sender_objects \<Rightarrow> sender_objects \<Rightarrow> bool" where
  "obj_next evp files patient h h' \<longleftrightarrow> obj_step evp files patient h (Inr h')"

section \<open>A patient user\<close>

definition fresh_object :: "sender_sys \<Rightarrow> bool" where
  "fresh_object x \<longleftrightarrow> ss_ops x = [] \<and> ss_log x = [] \<and> ts_file (ss_state x) = None
     \<and> ts_bytes_sent (ss_state x) = 0 \<and> length (ts_buffer (ss_state x)) = MAX_BUFFER_SIZE
     \<and> \<not> ts_socket_open (ss_state x)"

definition running_object :: "disk \<Rightarrow> (bytes \<Rightarrow> bytes) \<Rightarrow> sender_sys \<Rightarrow> bool" where
  "running_object files sha x \<longleftrightarrow>
     (\<exists>st0 c. files (ts_file_path st0) = Some c \<and> ts_sha256 st0 = sha c \<and> sender_inv st0 c x)"

definition objects_inv :: "disk \<Rightarrow> (bytes \<Rightarrow> bytes) \<Rightarrow> sender_objects \<Rightarrow> bool" where
  "objects_inv files sha h \<longleftrightarrow> so_queued h = []
     \<and> (case so_active h of
          None \<Rightarrow> so_heap h = Map.empty \<and> so_posts h = 0
        | Some i \<Rightarrow> i < so_next h \<and> (\<exists>x. so_heap h = [i \<mapsto> x]
            \<and> (so_posts h = 0 \<and> (fresh_object x \<or> running_object files sha x) \<or> so_posts h = 1 \<and> fresh_object x)))"

lemma objects_invI:
  assumes "so_queued h = []" and "so_active h = Some i" and "i < so_next h" and "so_heap h = [i \<mapsto> x]"
    and "so_posts h = 0 \<and> (fresh_object x \<or> running_object files sha x) \<or> so_posts h = 1 \<and> fresh_object x"
  shows "objects_inv files sha h"
  unfolding objects_inv_def assms(2) option.case by (intro conjI exI [of _ x]) (use assms in simp_all)

lemma new_sender_fresh:
  assumes "length (ga_tcp ga) = MAX_BUFFER_SIZE" and "sendFile ga target path nt = (ok, nt', fx)"
    and "nt_active_sender nt' = Some st"
  shows "fresh_object \<lparr>ss_state = st, ss_ops = [], ss_log = []\<rparr>"
  using assms by (auto simp: sendFile_def newTransferSender_def fresh_object_def)

lemma assign_inv:
  assumes "objects_inv files sha h" and "idle h" and "fresh_object \<lparr>ss_state = st, ss_ops = [], ss_log = []\<rparr>"
  shows "objects_inv files sha (assign_active st h)"
proof (cases "so_active h")
  case None
  with assms show ?thesis
    by (intro objects_invI [where i = "so_next h"]) (simp_all add: objects_inv_def idle_def assign_active_def Let_def)
next
  case (Some i)
  with assms show ?thesis
    by (intro objects_invI [where i = "so_next h"])
      (auto simp: objects_inv_def idle_def assign_active_def Let_def destroy_def)
qed

text \<open>A fresh sender that starts is one that \<open>sender_inv\<close> speaks about.\<close>

lemma fresh_starts:
  assumes "evp_sha256 evp sha" and "fresh_object x" and "startSender evp env (ss_state x) = Inr (ok, st, fx)"
    and "se_file env = files"
  shows "fresh_object (perform fx (x\<lparr>ss_state := st\<rparr>)) \<or> running_object files sha (perform fx (x\<lparr>ss_state := st\<rparr>))"
proof (cases "se_file env (ts_file_path (ss_state x))")
  case None
  with assms(2,3) have "st = ss_state x" "fx = []" by (auto simp: startSender_def open_file_def fresh_object_def)
  with assms(2) show ?thesis by (simp add: perform_def)
next
  case (Some c)
  have x: "ss_ops x = []" "ss_log x = []" "ts_file (ss_state x) = None" "ts_bytes_sent (ss_state x) = 0"
    "length (ts_buffer (ss_state x)) = MAX_BUFFER_SIZE" using assms(2) by (simp_all add: fresh_object_def)
  have st: "st = (ss_state x)\<lparr>ts_file_size := of_nat (length c), ts_sha256 := sha c, ts_file := Some (open_in c),
      ts_socket_open := True\<rparr>" "fx = [SStart (ConnectTo (ts_target_ip st) (ts_target_port st))]"
    using startSender_ok [OF assms(1) Some x(3)] assms(3) by (auto split: if_splits)
  have "sender_init st c (perform fx (x\<lparr>ss_state := st\<rparr>))"
    unfolding sender_init_def by (intro exI [of _ fx]) (use x st in \<open>simp add: perform_def\<close>)
  then have "sender_inv st c (perform fx (x\<lparr>ss_state := st\<rparr>))" by (rule sender_machine.init_inv)
  moreover have "files (ts_file_path st) = Some c" "ts_sha256 st = sha c" using Some st(1) assms(4) by simp_all
  ultimately show ?thesis unfolding running_object_def by blast
qed

lemma post_inv:
  assumes "evp_sha256 evp sha" and "objects_inv files sha h" and "0 < so_posts h" and "run_posted evp env h = Inr h'"
    and "se_file env = files"
  shows "objects_inv files sha h'"
proof -
  obtain i x where h: "so_active h = Some i" "i < so_next h" "so_heap h = [i \<mapsto> x]" "so_queued h = []"
    "so_posts h = 1" "fresh_object x"
    using assms(2,3) by (auto simp: objects_inv_def split: option.splits)
  obtain ok st fx where s: "startSender evp env (ss_state x) = Inr (ok, st, fx)"
    and h': "h' = h\<lparr>so_posts := 0, so_heap := [i \<mapsto> perform fx (x\<lparr>ss_state := st\<rparr>)]\<rparr>"
    using assms(4) h(1,3,5) by (auto simp: run_posted_def run_simps)
  from fresh_starts [OF assms(1) h(6) s assms(5)] show ?thesis
    by (intro objects_invI [where i = i]) (simp_all add: h h')
qed

lemma complete_inv:
  assumes "objects_inv files sha h" and "pending h i op" and "length data \<le> sender_reads op"
    and "ec = None \<longrightarrow> length data = sender_reads op" and "complete_op env i op ec data h = Inr h'"
  shows "objects_inv files sha h'"
proof -
  obtain x where x: "so_heap h i = Some x" "op \<in> set (ss_ops x)"
    using assms(1,2) by (auto simp: pending_def objects_inv_def split: option.splits)
  have h: "so_active h = Some i" "i < so_next h" "so_heap h = [i \<mapsto> x]" "so_queued h = []"
    "so_posts h = 0" "running_object files sha x"
    using assms(1) x by (auto simp: objects_inv_def fresh_object_def split: option.splits if_splits)
  obtain st fx where s: "sender_handler env (ss_state x) op ec data = Inr (st, fx)"
    and h': "h' = h\<lparr>so_heap := [i \<mapsto> perform fx (x\<lparr>ss_state := st, ss_ops := remove1 op (ss_ops x)\<rparr>)]\<rparr>"
    using assms(5) h(3) by (auto simp: complete_op_def run_simps)
  have "running_object files sha (perform fx (x\<lparr>ss_state := st, ss_ops := remove1 op (ss_ops x)\<rparr>))"
    using h(6) sender_machine.step_inv [OF _ sender_step.complete [OF x(2) assms(3,4) s]]
    unfolding running_object_def by blast
  then show ?thesis
    by (intro objects_invI [where i = i and x = "perform fx (x\<lparr>ss_state := st, ss_ops := remove1 op (ss_ops x)\<rparr>)"])
      (simp_all add: h h')
qed

lemma stop_inv:
  assumes "objects_inv files sha h"
  shows "objects_inv files sha (stop_active env h)"
proof (cases "so_active h")
  case (Some i)
  then obtain x where h: "i < so_next h" "so_heap h = [i \<mapsto> x]" "so_queued h = []"
    "so_posts h = 0 \<and> (fresh_object x \<or> running_object files sha x) \<or> so_posts h = 1 \<and> fresh_object x"
    using assms by (auto simp: objects_inv_def)
  let ?x = "x\<lparr>ss_state := snd (stopSender env (ss_state x))\<rparr>"
  have "fresh_object x \<Longrightarrow> fresh_object ?x" by (auto simp: fresh_object_def stopSender_def)
  moreover have "running_object files sha x \<Longrightarrow> running_object files sha ?x"
    unfolding running_object_def using sender_machine.step_inv [OF _ sender_step.stop] by blast
  ultimately show ?thesis
    using Some h by (intro objects_invI [where i = i and x = ?x]) (auto simp: stop_active_def)
qed (use assms in \<open>simp add: stop_active_def\<close>)

lemma objects_inv_step:
  assumes "evp_sha256 evp sha" and "objects_inv files sha h" and "obj_next evp files True h h'"
  shows "objects_inv files sha h'"
  using assms(3) unfolding obj_next_def
proof cases
  case send
  with assign_inv [OF assms(2) _ new_sender_fresh] show ?thesis by simp
next
  case post
  with post_inv [OF assms(1,2)] show ?thesis by metis
next
  case completed
  with complete_inv [OF assms(2)] show ?thesis by metis
next
  case stop
  with stop_inv [OF assms(2)] show ?thesis by simp
qed

lemma no_objects_inv: "objects_inv files sha no_objects"
  by (simp add: objects_inv_def no_objects_def)

interpretation patient_machine: state_machine "\<lambda>h. h = no_objects \<and> evp_sha256 evp sha" "obj_next evp files True"
  "\<lambda>h. objects_inv files sha h \<and> evp_sha256 evp sha" for evp :: "'ctx evp" and files sha
  by unfold_locales (auto intro: no_objects_inv objects_inv_step)

section \<open>A sample\<close>

lemma sample_sent:
  "sendFile sample_garbage \<lparr>dd_name = [66], dd_ip = [49], dd_tcp_port = 50001, dd_last_seen = 0\<rparr> [47, 97] fresh_net
     = (True, fresh_net\<lparr>nt_active_sender := Some sample_sender\<rparr>, [NPostStartSender])"
  "length (ga_tcp sample_garbage) = MAX_BUFFER_SIZE"
  by (simp_all add: sendFile_def sample_sender_def sample_garbage_def fresh_net_def)

lemma sample_post:
  assumes "so_active h = Some i" and "so_heap h i = Some \<lparr>ss_state = sample_sender, ss_ops = [], ss_log = []\<rparr>"
  shows "run_posted pad_evp sample_env h = Inr (h\<lparr>so_posts := so_posts h - 1, so_heap := (so_heap h)(i \<mapsto>
     \<lparr>ss_state = sample_sender\<lparr>ts_file_size := 3, ts_sha256 := pad32 [1, 2, 3],
        ts_file := Some (open_in [1, 2, 3]), ts_socket_open := True\<rparr>,
      ss_ops = [ConnectTo [49] 50001], ss_log = [SStart (ConnectTo [49] 50001)]\<rparr>)\<rparr>)"
  using assms sample_started by (simp add: run_posted_def perform_def)

section \<open>Properties\<close>

text \<open>
  C8. One file at a time is safe. When every file is sent while no sender works, then in every
  execution every outstanding operation belongs to a sender that still exists, a posted start finds
  the sender it was posted for, with its file not yet opened, and a sender reports success only for the
  file it was given, after the complete message stream of that file has been written.
\<close>

theorem patient_sends_safe:
  assumes "evp_sha256 evp sha" and "(obj_next evp files True)\<^sup>*\<^sup>* no_objects h"
  shows "(\<forall>i op. pending h i op \<longrightarrow> so_heap h i \<noteq> None)
    \<and> (0 < so_posts h \<longrightarrow> so_posts h = 1 \<and> (\<exists>i x. so_active h = Some i \<and> so_heap h i = Some x
        \<and> ts_file (ss_state x) = None \<and> ss_ops x = []))
    \<and> (\<forall>i x p. so_heap h i = Some x \<and> (True, p) \<in> set (completions (ss_log x)) \<longrightarrow>
        (\<exists>c st0. files p = Some c \<and> ts_file_path st0 = p \<and> ts_file_size st0 = of_nat (length c)
          \<and> ts_sha256 st0 = sha c \<and> wire (ss_log x) = honest_stream st0 c))"
proof -
  have inv: "objects_inv files sha h"
    using patient_machine.reachable_inv [of no_objects evp sha files h] assms by blast
  have "\<exists>c st0. files p = Some c \<and> ts_file_path st0 = p \<and> ts_file_size st0 = of_nat (length c)
      \<and> ts_sha256 st0 = sha c \<and> wire (ss_log x) = honest_stream st0 c"
    if "so_heap h i = Some x" "(True, p) \<in> set (completions (ss_log x))" for i x p
  proof -
    have "running_object files sha x"
      using inv that by (auto simp: objects_inv_def fresh_object_def completions_def split: option.splits if_splits)
    then obtain st0 c where s: "files (ts_file_path st0) = Some c" "ts_sha256 st0 = sha c" "sender_inv st0 c x"
      unfolding running_object_def by blast
    with that(2) have "ts_file_path st0 = p \<and> ts_file_size st0 = of_nat (length c) \<and> wire (ss_log x) = honest_stream st0 c"
      using sender_inv_success [OF s(3)] by (auto simp: sender_inv_alt)
    with s show ?thesis by auto
  qed
  moreover have "\<forall>i op. pending h i op \<longrightarrow> so_heap h i \<noteq> None"
    using inv by (auto simp: pending_def objects_inv_def split: option.splits)
  ultimately show ?thesis
    using inv by (auto simp: objects_inv_def fresh_object_def split: option.splits)
qed

theorem patient_sends_safe_witness:
  "\<exists>h. (obj_next pad_evp (se_file sample_env) True)\<^sup>*\<^sup>* no_objects h
     \<and> pending h 0 (ConnectTo [49] 50001) \<and> so_heap h 0 \<noteq> None"
proof -
  let ?next = "obj_next pad_evp (se_file sample_env) True"
  let ?h1 = "assign_active sample_sender no_objects"
  have "?next no_objects ?h1"
    unfolding obj_next_def
    by (rule obj_step.send [OF _ sample_sent(2,1)]) (simp_all add: idle_def no_objects_def)
  moreover obtain h where h: "run_posted pad_evp sample_env ?h1 = Inr h" "pending h 0 (ConnectTo [49] 50001)"
    using sample_post [of ?h1 0] by (simp add: assign_active_def no_objects_def Let_def pending_def)
  have "?next ?h1 h"
    unfolding obj_next_def
    using obj_step.post [OF _ refl, of ?h1 pad_evp sample_env True] h(1)
    by (simp add: assign_active_def no_objects_def Let_def)
  ultimately have "?next\<^sup>*\<^sup>* no_objects h" by (metis rtranclp.rtrancl_into_rtrancl rtranclp.rtrancl_refl)
  with patient_sends_safe [OF pad_evp_sha256 this] h(2) show ?thesis by blast
qed

text \<open>
  Sending while a sender works uses a destroyed object: when a file is sent while the active sender
  has an operation outstanding, that sender is destroyed at once, the operation is still to be
  completed, and its handler then works on the destroyed object, whatever the outcome.
\<close>

theorem replaced_sender_used:
  assumes "so_active h = Some i" and "so_heap h i = Some x" and "op \<in> set (ss_ops x)" and "i \<noteq> so_next h"
  shows "so_heap (assign_active st h) i = None \<and> pending (assign_active st h) i op
    \<and> complete_op env i op ec data (assign_active st h) = Inl OutOfBounds"
  using assms by (simp add: assign_active_def destroy_def pending_def complete_op_def Let_def)

theorem replaced_sender_used_witness:
  "\<exists>h. run_posted pad_evp sample_env (assign_active sample_sender no_objects) = Inr h
     \<and> complete_op sample_env 0 (ConnectTo [49] 50001) (Some operation_aborted) [] (assign_active sample_sender h)
        = Inl OutOfBounds"
proof -
  obtain h x where h: "run_posted pad_evp sample_env (assign_active sample_sender no_objects) = Inr h"
    "so_active h = Some 0" "so_heap h 0 = Some x" "ConnectTo [49] 50001 \<in> set (ss_ops x)" "0 \<noteq> so_next h"
    using sample_post [of "assign_active sample_sender no_objects" 0]
    by (simp add: assign_active_def no_objects_def Let_def)
  with replaced_sender_used [OF h(2-5)] show ?thesis by blast
qed

text \<open>
  C34. Two files sent in quick succession: the first sender is never started, the second one is started
  twice. The second start finds the file open, takes -1 for its size and the digest of the empty
  message for the digest of the file, and starts to connect a second time on the same socket.
\<close>

theorem quick_sends:
  assumes "evp_sha256 evp sha" and "ts_file st2 = None" and "files (ts_file_path st2) = Some c"
    and "se_file env1 = files" and "se_file env2 = files" and "se_address_ok env1" and "se_address_ok env2"
    and "h2 = assign_active st2 (assign_active st1 no_objects)"
  shows "\<exists>h3 h4 x. run_posted evp env1 h2 = Inr h3 \<and> run_posted evp env2 h3 = Inr h4
    \<and> so_heap h4 = [1 \<mapsto> x] \<and> so_posts h4 = 0
    \<and> ss_ops x = [ConnectTo (ts_target_ip st2) (ts_target_port st2), ConnectTo (ts_target_ip st2) (ts_target_port st2)]
    \<and> op_file_size (offer_of (ss_state x)) = 2 ^ 64 - 1 \<and> op_sha256 (offer_of (ss_state x)) = sha []"
proof -
  let ?s = "st2\<lparr>ts_file_size := of_nat (length c), ts_sha256 := sha c, ts_file := Some (open_in c), ts_socket_open := True\<rparr>"
  let ?op = "ConnectTo (ts_target_ip st2) (ts_target_port st2)"
  let ?h3 = "h2\<lparr>so_posts := 1, so_heap := [1 \<mapsto> \<lparr>ss_state = ?s, ss_ops = [?op], ss_log = [SStart ?op]\<rparr>]\<rparr>"
  have h2: "so_heap h2 = [1 \<mapsto> \<lparr>ss_state = st2, ss_ops = [], ss_log = []\<rparr>]" "so_active h2 = Some 1" "so_posts h2 = 2"
    by (simp_all add: assms(8) assign_active_def no_objects_def destroy_def Let_def)
  have "startSender evp env1 st2 = Inr (True, ?s, [SStart ?op])"
    using startSender_ok [OF assms(1) _ assms(2), of env1 c] assms(3,4,6) by simp
  then have one: "run_posted evp env1 h2 = Inr ?h3" by (simp add: run_posted_def h2 perform_def)
  obtain d f where df: "file_digest evp ((open_in c)\<lparr>in_good := False\<rparr>) = (d, f)" by fastforce
  have "d = sha []" using file_digest_sha [OF assms(1), of "(open_in c)\<lparr>in_good := False\<rparr>"] by (simp add: df)
  let ?t = "?s\<lparr>ts_file_size := - 1, ts_sha256 := sha [], ts_file := Some (rewind f)\<rparr>"
  let ?x = "\<lparr>ss_state = ?t, ss_ops = [?op, ?op], ss_log = [SStart ?op, SStart ?op]\<rparr>"
  from \<open>d = sha []\<close> have "startSender evp env2 ?s = Inr (True, ?t, [SStart ?op])"
    using assms(7) by (simp add: startSender_def open_file_def df)
  then have two: "run_posted evp env2 ?h3 = Inr (h2\<lparr>so_posts := 0, so_heap := [1 \<mapsto> ?x]\<rparr>)"
    by (simp add: run_posted_def h2 perform_def)
  show ?thesis
    by (rule exI [of _ ?h3], rule exI [of _ "h2\<lparr>so_posts := 0, so_heap := [1 \<mapsto> ?x]\<rparr>"], rule exI [of _ ?x])
      (use one two in \<open>simp add: offer_of_def\<close>)
qed

theorem quick_sends_witness:
  "\<exists>h3 h4 x. run_posted pad_evp sample_env (assign_active sample_sender (assign_active sample_sender no_objects)) = Inr h3
     \<and> run_posted pad_evp sample_env h3 = Inr h4 \<and> so_heap h4 = [1 \<mapsto> x]
     \<and> op_file_size (offer_of (ss_state x)) = 2 ^ 64 - 1"
  using quick_sends [OF pad_evp_sha256 _ _ refl refl _ _ refl, of sample_sender sample_env "[1, 2, 3]" sample_sender]
  by (auto simp: sample_env_def sample_sender_def newTransferSender_def)

end
