(* ===== verification/Doubles.thy ===== *)
theory Doubles
  imports Prelude "HOL-Library.Log_Nat"
begin

text \<open>
  The arithmetic of \<open>double\<close> as far as the program uses it: conversion of integers, division and
  multiplication of values that are not negative. A finite value is a rational number; every operation
  is exact and then rounded to 53 significant bits, half to even. All values met are zero or between
  \<open>2 ^ -64\<close> and \<open>2 ^ 71\<close>, far from the ends of the exponent range.
\<close>

section \<open>Rounding\<close>

definition round_half_even :: "rat \<Rightarrow> int" where
  "round_half_even q =
     (let n = \<lfloor>q\<rfloor>; r = q - of_int n in if r > 1 / 2 \<or> r = 1 / 2 \<and> odd n then n + 1 else n)"

text \<open>The distance of the doubles around \<open>x\<close>, for \<open>x\<close> at least \<open>1 / SCALE\<close>.\<close>

definition SCALE :: rat where "SCALE = 2 ^ 120"

definition magnitude :: "rat \<Rightarrow> nat" where
  "magnitude x = floorlog 2 (nat \<lfloor>x * SCALE\<rfloor>)"

definition ulp :: "rat \<Rightarrow> rat" where
  "ulp x = 2 ^ magnitude x / (SCALE * 2 ^ 53)"

definition to_double :: "rat \<Rightarrow> rat" where
  "to_double x = of_int (round_half_even (x / ulp x)) * ulp x"

lemma floor_bounds: "of_int \<lfloor>q\<rfloor> \<le> q" "(q :: rat) < of_int \<lfloor>q\<rfloor> + 1"
  by simp linarith

lemma round_half_even_bounds: "q - 1 / 2 \<le> of_int (round_half_even q)" "of_int (round_half_even q) \<le> q + 1 / 2"
  unfolding round_half_even_def Let_def by (auto split: if_splits; linarith)+

lemma round_half_even_int [simp]: "round_half_even (of_int n) = n"
  by (simp add: round_half_even_def)

lemma round_half_even_mono:
  assumes "p \<le> q"
  shows "round_half_even p \<le> round_half_even q"
proof (cases "\<lfloor>p\<rfloor> = \<lfloor>q\<rfloor>")
  case True
  with assms show ?thesis by (auto simp: round_half_even_def Let_def)
next
  case False
  then have "\<lfloor>p\<rfloor> + 1 \<le> \<lfloor>q\<rfloor>" using floor_mono [OF assms] by simp
  then show ?thesis by (auto simp: round_half_even_def Let_def)
qed

lemma SCALE_pos [simp]: "0 < SCALE"
  by (simp add: SCALE_def)

lemma scaled_floor: "0 \<le> x \<Longrightarrow> (of_nat (nat \<lfloor>x * SCALE\<rfloor>) :: rat) = of_int \<lfloor>x * SCALE\<rfloor>"
  by (simp add: of_nat_nat less_imp_le)

lemma ulp_pos [simp]: "0 < ulp x"
  by (simp add: ulp_def)

lemma magnitude_mono: "x \<le> y \<Longrightarrow> magnitude x \<le> magnitude y"
  unfolding magnitude_def by (intro floorlog_mono nat_mono floor_mono) simp

lemma floorlog_less: "n < 2 ^ floorlog 2 n"
  using floorlog_bounds [of n 2] by (cases "n = 0") (auto simp: floorlog_def)

lemma magnitude_less:
  assumes "0 \<le> x"
  shows "x * SCALE < 2 ^ magnitude x"
proof -
  let ?n = "nat \<lfloor>x * SCALE\<rfloor>"
  have "x * SCALE < of_int \<lfloor>x * SCALE\<rfloor> + 1" by (rule floor_bounds)
  also have "\<dots> = of_nat (?n + 1)" by (simp only: of_nat_add of_nat_1 scaled_floor [OF assms])
  also have "\<dots> \<le> of_nat (2 ^ magnitude x)"
    unfolding of_nat_le_iff magnitude_def Suc_eq_plus1 [symmetric] by (rule Suc_leI [OF floorlog_less])
  finally show ?thesis by simp
qed

lemma magnitude_ge:
  assumes "0 \<le> x" and "0 < magnitude x"
  shows "2 ^ (magnitude x - 1) \<le> x * SCALE"
proof -
  let ?n = "nat \<lfloor>x * SCALE\<rfloor>"
  have "0 < ?n" using assms(2) unfolding magnitude_def by (cases "?n = 0") (simp_all add: floorlog_def)
  then have "2 ^ (magnitude x - 1) \<le> ?n" unfolding magnitude_def using floorlog_bounds [of ?n 2] by simp
  then have "of_nat (2 ^ (magnitude x - 1)) \<le> (of_nat ?n :: rat)" unfolding of_nat_le_iff .
  also have "\<dots> \<le> x * SCALE" by (simp only: scaled_floor [OF assms(1)] of_int_floor_le)
  finally show ?thesis by simp
qed

text \<open>The quotient that is rounded has at most 53 bits, and exactly 53 unless \<open>x\<close> is tiny.\<close>

lemma quotient_less: "0 \<le> x \<Longrightarrow> x / ulp x < 2 ^ 53"
  using magnitude_less [of x] by (simp add: ulp_def field_simps)

lemma quotient_ge: "0 \<le> x \<Longrightarrow> 0 < magnitude x \<Longrightarrow> 2 ^ 52 \<le> x / ulp x"
  using magnitude_ge [of x] by (cases "magnitude x") (simp_all add: ulp_def field_simps)

lemma to_double_0 [simp]: "to_double 0 = 0"
  using round_half_even_int [of 0] by (simp add: to_double_def)

lemma to_double_exact:
  assumes "x = of_int k * ulp x"
  shows "to_double x = x"
proof -
  have "x / ulp x = of_int k" using assms ulp_pos [of x] by (metis less_irrefl nonzero_mult_div_cancel_right)
  then show ?thesis using assms by (simp add: to_double_def)
qed

lemma to_double_mono:
  assumes "0 \<le> x" and "x \<le> y"
  shows "to_double x \<le> to_double y"
proof (cases "magnitude x = magnitude y")
  case True
  then have u: "ulp x = ulp y" by (simp add: ulp_def)
  have "x / ulp y \<le> y / ulp y" using assms(2) by (simp add: divide_right_mono less_imp_le)
  then show ?thesis by (simp add: to_double_def u round_half_even_mono mult_right_mono less_imp_le)
next
  case False
  then have m: "magnitude x < magnitude y" using magnitude_mono [OF assms(2)] by simp
  have "round_half_even (x / ulp x) \<le> round_half_even (of_int (2 ^ 53))"
    by (rule round_half_even_mono) (use quotient_less [OF assms(1)] in simp)
  also have "\<dots> = 2 ^ 53" by (rule round_half_even_int)
  finally have "to_double x \<le> 2 ^ 53 * ulp x" by (simp add: to_double_def)
  also have "\<dots> \<le> 2 ^ 52 * ulp y"
    using m power_increasing [of "Suc (magnitude x)" "magnitude y" "2 :: rat"] by (simp add: ulp_def field_simps)
  also have "\<dots> \<le> to_double y"
  proof -
    have "2 ^ 52 = round_half_even (of_int (2 ^ 52))" by (rule round_half_even_int [symmetric])
    also have "\<dots> \<le> round_half_even (y / ulp y)"
      by (rule round_half_even_mono) (use quotient_ge [of y] assms m in simp)
    finally show ?thesis by (simp add: to_double_def)
  qed
  finally show ?thesis .
qed

text \<open>Rounding changes a value by at most one part in \<open>2 ^ 53\<close>.\<close>

lemma to_double_error:
  assumes "0 \<le> x" and "x = 0 \<or> 1 \<le> x * SCALE"
  shows "\<bar>to_double x - x\<bar> \<le> x / 2 ^ 53"
proof (cases "x = 0")
  case False
  have "magnitude x \<noteq> 0"
  proof
    assume "magnitude x = 0"
    with magnitude_less [OF assms(1)] assms(2) False show False by simp
  qed
  then have "2 ^ 52 * ulp x \<le> x"
    using quotient_ge [OF assms(1)] ulp_pos [of x] by (simp add: pos_le_divide_eq)
  moreover have "\<bar>to_double x - x\<bar> \<le> ulp x / 2"
  proof -
    have d: "to_double x - x = (of_int (round_half_even (x / ulp x)) - x / ulp x) * ulp x"
      using ulp_pos [of x] by (simp add: to_double_def algebra_simps less_imp_neq [symmetric])
    have "\<bar>of_int (round_half_even (x / ulp x)) - x / ulp x\<bar> \<le> 1 / 2"
      using round_half_even_bounds [of "x / ulp x"] by (intro abs_leI) linarith+
    then have "\<bar>of_int (round_half_even (x / ulp x)) - x / ulp x\<bar> * ulp x \<le> 1 / 2 * ulp x"
      by (rule mult_right_mono) (simp add: less_imp_le)
    then show ?thesis unfolding d abs_mult abs_of_pos [OF ulp_pos] by linarith
  qed
  ultimately show ?thesis by simp
qed simp

lemma scaled_ge_1: "1 / 2 ^ 100 \<le> x \<Longrightarrow> 1 \<le> x * SCALE"
  by (simp add: SCALE_def)

lemma to_double_nonneg: "0 \<le> x \<Longrightarrow> 0 \<le> to_double x"
  using to_double_mono [of 0 x] by simp

lemma to_double_relative:
  assumes "0 \<le> x" and "x = 0 \<or> 1 \<le> x * SCALE"
  shows "x * (1 - 1 / 2 ^ 53) \<le> to_double x" and "to_double x \<le> x * (1 + 1 / 2 ^ 53)"
  using to_double_error [OF assms] unfolding abs_le_iff by (simp_all add: algebra_simps)

definition rat_of :: "u64 \<Rightarrow> rat" where
  "rat_of w = of_nat (unat w)"

lemma rat_of_mono: "w \<le> w' \<Longrightarrow> rat_of w \<le> rat_of w'"
  unfolding rat_of_def of_nat_le_iff by (simp add: word_le_nat_alt)

lemma rat_of_0 [simp]: "rat_of 0 = 0"
  by (simp add: rat_of_def)

lemma rat_of_pos:
  assumes "0 < w"
  shows "1 \<le> rat_of w"
proof -
  have "1 \<le> unat w" using assms by (simp add: word_less_nat_alt Suc_le_eq)
  then have "of_nat 1 \<le> (of_nat (unat w) :: rat)" unfolding of_nat_le_iff .
  then show ?thesis by (simp only: rat_of_def of_nat_1)
qed

lemma rat_of_nonneg: "0 \<le> rat_of w"
  unfolding rat_of_def by (rule of_nat_0_le_iff)

lemma rat_of_less: "rat_of w < 2 ^ 64"
proof -
  have "of_nat (unat w) < (of_nat (2 ^ 64) :: rat)" unfolding of_nat_less_iff using unsigned_less [of w] by simp
  then show ?thesis by (simp add: rat_of_def)
qed

section \<open>Values and operations\<close>

datatype double = NaN | Infinity | Finite rat

definition double_of :: "u64 \<Rightarrow> double" where
  "double_of n = Finite (to_double (rat_of n))"

fun double_div :: "double \<Rightarrow> double \<Rightarrow> double" where
  "double_div (Finite x) (Finite y) =
     (if y = 0 then if x = 0 then NaN else Infinity else Finite (to_double (x / y)))"
| "double_div Infinity (Finite y) = Infinity"
| "double_div (Finite x) Infinity = Finite 0"
| "double_div _ _ = NaN"

fun double_mult :: "double \<Rightarrow> double \<Rightarrow> double" where
  "double_mult (Finite x) (Finite y) = Finite (to_double (x * y))"
| "double_mult Infinity (Finite y) = (if y = 0 then NaN else Infinity)"
| "double_mult (Finite x) Infinity = (if x = 0 then NaN else Infinity)"
| "double_mult Infinity Infinity = Infinity"
| "double_mult _ _ = NaN"

text \<open>Conversion to \<open>int\<close> drops the fraction; it is undefined when the result does not fit.\<close>

fun double_to_int :: "double \<Rightarrow> int run" where
  "double_to_int (Finite x) = (if \<lfloor>x\<rfloor> \<le> 2147483647 then Inr \<lfloor>x\<rfloor> else Inl BadConversion)"
| "double_to_int _ = Inl BadConversion"

section \<open>Percentages\<close>

text \<open>\<open>(double)sent / amount * 100\<close>; the number 100 is a double.\<close>

definition percent :: "u64 \<Rightarrow> u64 \<Rightarrow> double" where
  "percent sent amount = double_mult (double_div (double_of sent) (double_of amount)) (Finite 100)"

definition percent_value :: "u64 \<Rightarrow> u64 \<Rightarrow> rat" where
  "percent_value sent amount =
     to_double (to_double (to_double (rat_of sent) / to_double (rat_of amount)) * 100)"

lemma magnitude_nat: "0 < n \<Longrightarrow> magnitude (of_nat n) = floorlog 2 n + 120"
proof -
  assume n: "0 < n"
  have "of_nat n * SCALE = of_int (int (n * 2 ^ 120))" by (simp add: SCALE_def)
  then have "nat \<lfloor>of_nat n * SCALE\<rfloor> = n * 2 ^ 120" by (simp only: floor_of_int nat_int)
  with n show ?thesis unfolding magnitude_def by (simp only: floorlog_power one_less_numeral_iff semiring_norm)
qed

lemma to_double_nat:
  assumes "n < 2 ^ 53"
  shows "to_double (of_nat n) = of_nat n"
proof (cases "n = 0")
  case False
  then have m: "magnitude (of_nat n) = floorlog 2 n + 120" by (simp add: magnitude_nat)
  have "floorlog 2 n \<le> 53" by (rule floorlog_leI [OF assms]) simp_all
  then have "(2 :: rat) ^ 53 = 2 ^ (53 - floorlog 2 n) * 2 ^ floorlog 2 n" by (simp flip: power_add)
  then have "of_nat n = of_int (int n * 2 ^ (53 - floorlog 2 n)) * ulp (of_nat n)"
    unfolding ulp_def m power_add SCALE_def by (simp only: of_int_mult of_int_power of_int_numeral of_int_of_nat_eq) simp
  then show ?thesis by (rule to_double_exact)
qed simp

lemma to_double_1: "to_double 1 = 1" and to_double_100: "to_double 100 = 100"
  using to_double_nat [of 1] to_double_nat [of 100] by simp_all

lemma to_double_ge_1: "1 \<le> x \<Longrightarrow> 1 \<le> to_double x"
  using to_double_mono [of 1 x] by (simp add: to_double_1)

lemma percent_finite:
  assumes "0 < amount"
  shows "percent sent amount = Finite (percent_value sent amount)"
  using to_double_ge_1 [OF rat_of_pos [OF assms]] by (simp add: percent_def percent_value_def double_of_def)

lemma percent_zero: "double_to_int (percent sent 0) = Inl BadConversion"
  by (simp add: percent_def double_of_def)

lemma percent_value_mono:
  assumes "sent \<le> sent'" and "0 < amount"
  shows "percent_value sent amount \<le> percent_value sent' amount"
proof -
  have T: "0 \<le> to_double (rat_of amount)" using to_double_ge_1 [OF rat_of_pos [OF assms(2)]] by linarith
  have "to_double (rat_of sent) / to_double (rat_of amount) \<le> to_double (rat_of sent') / to_double (rat_of amount)"
    by (intro divide_right_mono [OF _ T] to_double_mono rat_of_nonneg rat_of_mono assms(1))
  then show ?thesis
    unfolding percent_value_def
    by (intro to_double_mono mult_right_mono mult_nonneg_nonneg to_double_nonneg divide_nonneg_nonneg T rat_of_nonneg)
      simp_all
qed

lemma percent_value_0: "percent_value 0 amount = 0"
  by (simp add: percent_value_def)

lemma percent_value_full: "0 < amount \<Longrightarrow> percent_value amount amount = 100"
  using to_double_ge_1 [OF rat_of_pos, of amount] by (simp add: percent_value_def to_double_1 to_double_100)

text \<open>
  The four roundings change the percentage by less than one half; for that a bound of one part in a
  thousand on each of them is enough.
\<close>

lemma to_double_near:
  assumes "1 / 2 ^ 100 \<le> x"
  shows "x * (999 / 1000) \<le> to_double x" and "to_double x \<le> x * (1001 / 1000)"
proof -
  have x: "0 \<le> x" by (rule order_trans [OF _ assms]) simp
  have b: "x * (1 - 1 / 2 ^ 53) \<le> to_double x" "to_double x \<le> x * (1 + 1 / 2 ^ 53)"
    using to_double_relative [OF x] scaled_ge_1 [OF assms] by blast+
  show "x * (999 / 1000) \<le> to_double x"
    by (rule order_trans [OF mult_left_mono [OF _ x] b(1)]) simp
  show "to_double x \<le> x * (1001 / 1000)"
    by (rule order_trans [OF b(2) mult_left_mono [OF _ x]]) simp
qed

lemma quotient_near:
  fixes s t S T :: rat
  assumes "0 < s" and "0 < t" and "s * (999 / 1000) \<le> S" and "S \<le> s * (1001 / 1000)"
    and "t * (999 / 1000) \<le> T" and "T \<le> t * (1001 / 1000)"
  shows "s / t * (999 / 1001) \<le> S / T" and "S / T \<le> s / t * (1001 / 999)"
proof -
  have T: "0 < T" using assms(2,5) by (simp add: less_le_trans [OF _ assms(5)])
  have "(s * (999 / 1000)) / (t * (1001 / 1000)) \<le> S / T" by (rule frac_le) (use assms T in auto)
  then show "s / t * (999 / 1001) \<le> S / T" by simp
  have "S / T \<le> (s * (1001 / 1000)) / (t * (999 / 1000))" by (rule frac_le) (use assms T in auto)
  then show "S / T \<le> s / t * (1001 / 999)" by simp
qed

lemma percent_value_close:
  assumes "0 < amount" and "sent \<le> amount"
  shows "\<bar>percent_value sent amount - 100 * rat_of sent / rat_of amount\<bar> \<le> 1 / 2"
proof (cases "sent = 0")
  case False
  define s t where "s = rat_of sent" and "t = rat_of amount"
  define r where "r = s / t"
  define q where "q = to_double s / to_double t"
  have st: "1 \<le> s" "1 \<le> t" "s \<le> t" "t \<le> 2 ^ 64"
    using False assms rat_of_pos rat_of_mono less_imp_le [OF rat_of_less] by (auto simp: word_gt_0 s_def t_def)
  have big: "1 / 2 ^ 100 \<le> x" if "1 \<le> x" for x :: rat
    by (rule order_trans [OF _ that]) simp
  have r: "1 / 2 ^ 64 \<le> r" "r \<le> 1"
    unfolding r_def using st frac_le [of s 1 t "2 ^ 64"] by simp_all
  have q: "r * (999 / 1001) \<le> q" "q \<le> r * (1001 / 999)"
    using quotient_near [of s t] to_double_near [OF big] st unfolding q_def r_def by auto
  have "1 / 2 ^ 100 \<le> q"
    by (rule order_trans [OF _ q(1)], rule order_trans [OF _ mult_right_mono [OF r(1)]]) simp_all
  then have d: "q * (999 / 1000) \<le> to_double q" "to_double q \<le> q * (1001 / 1000)" by (rule to_double_near)+
  have "1 / 2 ^ 65 \<le> to_double q"
    by (rule order_trans [OF _ d(1)], rule order_trans [OF _ mult_right_mono [OF q(1)]],
        rule order_trans [OF _ mult_right_mono [OF mult_right_mono [OF r(1)]]]) simp_all
  then have "1 / 2 ^ 100 \<le> to_double q * 100" by (rule order_trans [rotated, OF mult_right_mono [of _ _ 100]]) simp_all
  then have "to_double q * 100 * (999 / 1000) \<le> percent_value sent amount"
    "percent_value sent amount \<le> to_double q * 100 * (1001 / 1000)"
    unfolding percent_value_def s_def [symmetric] t_def [symmetric] q_def [symmetric] by (rule to_double_near)+
  then show ?thesis
    unfolding s_def [symmetric] t_def [symmetric] abs_le_iff using q d r(2)
    by (simp add: r_def field_simps)
qed (simp add: percent_value_0)

end
