(* ===== verification/Main_Window.thy ===== *)
theory Main_Window
  imports Net_Core Doubles
begin

text \<open>
  The graphical interface: the signals of \<open>NetTransferBridge\<close>
  (\<open>src/src/gui/NetTransferBridge.cpp\<close>) and the slots and event handlers of \<open>MainWindow\<close>
  (\<open>src/src/gui/mainWindow.cpp\<close>). The bridge only forwards its methods to \<open>NetTransfer\<close>, so the
  window holds that object's state directly. What the user does (the text of the selected item,
  the reply to a question, the file chosen) comes as an argument; the widgets' looks are left out.
  Qt's string conversions are a parameter.
\<close>

section \<open>State\<close>

type_synonym qstring = "u16 list"

record qt_lib =
  qs_from :: "bytes \<Rightarrow> qstring"  \<comment> \<open>\<open>QString::fromStdString\<close>\<close>
  qs_to :: "qstring \<Rightarrow> bytes"  \<comment> \<open>\<open>toStdString\<close>\<close>
  qs_trimmed :: "qstring \<Rightarrow> qstring"
  qs_number :: "nat \<Rightarrow> nat \<Rightarrow> qstring"  \<comment> \<open>\<open>QString::number(m / 1024^k, 'f', 2)\<close>\<close>

definition qs :: "string \<Rightarrow> qstring" where
  "qs cs = map of_char cs"

record MainWindow =
  mw_net :: NetTransfer
  mw_deviceList :: "qstring list"
  mw_log :: "qstring list"
  mw_progress_shown :: bool
  mw_progress_value :: "int option"  \<comment> \<open>\<open>None\<close> until a value is set\<close>

datatype bridge_signal =
    DeviceFound qstring qstring u16
  | DeviceLeft qstring qstring u16
  | OfferReceived qstring u64 qstring
  | ProgressUpdated u64 u64
  | TransferComplete bool qstring
  | NewDevicePending qstring qstring

section \<open>The bridge\<close>

text \<open>
  The callbacks that \<open>start\<close> installs: each queues one signal. Those of the sender come through
  \<open>NetTransfer::sendFile\<close>, which drops the path.
\<close>

fun net_signal :: "qt_lib \<Rightarrow> net_effect \<Rightarrow> bridge_signal list" where
  "net_signal lib (NDiscovery (OnDeviceFound d)) =
     [DeviceFound (qs_from lib (dd_name d)) (qs_from lib (dd_ip d)) (dd_tcp_port d)]"
| "net_signal lib (NDiscovery (OnDeviceLeft d)) =
     [DeviceLeft (qs_from lib (dd_name d)) (qs_from lib (dd_ip d)) (dd_tcp_port d)]"
| "net_signal lib (NReceiver (ROffer op)) =
     [OfferReceived (qs_from lib (op_file_name op)) (op_file_size op) (qs_from lib (op_device_name op))]"
| "net_signal lib (NReceiver (RProgress sent amount)) = [ProgressUpdated sent amount]"
| "net_signal lib (NReceiver (RComplete ok path)) = [TransferComplete ok (qs_from lib path)]"
| "net_signal lib (NNewDevice fingerprint name) =
     [NewDevicePending (qs_from lib fingerprint) (qs_from lib name)]"
| "net_signal lib _ = []"

fun sender_signal :: "qt_lib \<Rightarrow> sender_effect \<Rightarrow> bridge_signal list" where
  "sender_signal lib (SProgress sent amount) = [ProgressUpdated sent amount]"
| "sender_signal lib (SComplete ok path) = [TransferComplete ok (qs_from lib [])]"
| "sender_signal lib _ = []"

text \<open>Its two methods that do more than forward.\<close>

definition bridge_getDeviceName :: "qt_lib \<Rightarrow> NetTransfer \<Rightarrow> qstring" where
  "bridge_getDeviceName lib nt = qs_from lib (getDeviceName nt)"

definition bridge_setDeviceName ::
  "qt_lib \<Rightarrow> net_env \<Rightarrow> disk \<Rightarrow> qstring \<Rightarrow> NetTransfer \<Rightarrow> disk \<times> NetTransfer run" where
  "bridge_setDeviceName lib env disk name nt =
     setNetDeviceName (ne_json env) (ne_writable env) disk (qs_to lib name) nt"

section \<open>Slots\<close>

definition label :: "qstring \<Rightarrow> qstring \<Rightarrow> qstring" where
  "label name ip = name @ qs '' - '' @ ip"

definition append_log :: "qstring \<Rightarrow> MainWindow \<Rightarrow> MainWindow" where
  "append_log line mw = mw\<lparr>mw_log := mw_log mw @ [line]\<rparr>"

text \<open>
  \<open>QProgressBar::setValue\<close> ignores a value outside the range of the bar, which stays at the default
  from 0 to 100.
\<close>

definition setValue :: "int \<Rightarrow> MainWindow \<Rightarrow> MainWindow" where
  "setValue v mw = (if 0 \<le> v \<and> v \<le> 100 then mw\<lparr>mw_progress_value := Some v\<rparr> else mw)"

definition onDeviceFound :: "qstring \<Rightarrow> qstring \<Rightarrow> u16 \<Rightarrow> MainWindow \<Rightarrow> MainWindow" where
  "onDeviceFound name ip port mw = mw\<lparr>mw_deviceList := mw_deviceList mw @ [label name ip]\<rparr>"

text \<open>\<open>findItems\<close> with \<open>Qt::MatchExactly\<close> gives every item with that text.\<close>

definition onDeviceLeft :: "qstring \<Rightarrow> qstring \<Rightarrow> u16 \<Rightarrow> MainWindow \<Rightarrow> MainWindow" where
  "onDeviceLeft name ip port mw =
     mw\<lparr>mw_deviceList := filter (\<lambda>text. text \<noteq> label name ip) (mw_deviceList mw)\<rparr>"

text \<open>
  The size in the question. The number of kilobytes is rounded to a \<open>float\<close> with its 24 significant
  bits; dividing that by 1024 is exact.
\<close>

definition to_float :: "nat \<Rightarrow> nat" where
  "to_float n =
     (let k = floorlog 2 n - 24; q = n div 2 ^ k; r = 2 * (n mod 2 ^ k)
      in (if r > 2 ^ k \<or> r = 2 ^ k \<and> odd q then q + 1 else q) * 2 ^ k)"

definition size_text :: "qt_lib \<Rightarrow> u64 \<Rightarrow> qstring" where
  "size_text lib fileSize =
     (let kb = to_float (unat fileSize div 1024) in
      if kb > 1024 ^ 2 then qs_number lib kb 2 @ qs ''GB''
      else if kb > 1024 then qs_number lib kb 1 @ qs ''MB''
      else if kb > 1 then qs_number lib kb 0 @ qs ''KB''
      else qs_number lib (unat fileSize) 0 @ qs '' bytes'')"

definition offer_question :: "qt_lib \<Rightarrow> qstring \<Rightarrow> u64 \<Rightarrow> qstring \<Rightarrow> qstring" where
  "offer_question lib fileName fileSize senderName =
     senderName @ qs '' wants to send you:'' @ [10] @ fileName @ [10] @ qs ''Size: '' @ size_text lib fileSize"

text \<open>\<open>reply\<close> is the answer to the question that is shown.\<close>

definition onOfferReceived ::
  "qt_lib \<Rightarrow> (qstring \<Rightarrow> bool) \<Rightarrow> qstring \<Rightarrow> u64 \<Rightarrow> qstring \<Rightarrow> MainWindow \<Rightarrow> (MainWindow \<times> net_effect list) run" where
  "onOfferReceived lib reply fileName fileSize senderName mw =
     (if reply (offer_question lib fileName fileSize senderName)
      then andThen (acceptOffer (mw_net mw)) (\<lambda>fx. Inr ((setValue 0 mw)\<lparr>mw_progress_shown := True\<rparr>, fx))
      else andThen (rejectOffer (mw_net mw) USER_DECLINED) (\<lambda>fx. Inr (mw, fx)))"

text \<open>\<open>setValue\<close> takes an \<open>int\<close>, so the \<open>double\<close> is converted.\<close>

definition onProgress :: "u64 \<Rightarrow> u64 \<Rightarrow> MainWindow \<Rightarrow> MainWindow run" where
  "onProgress sent amount mw =
     andThen (double_to_int (percent sent amount)) (\<lambda>v. Inr (setValue v mw))"

definition onTransferComplete :: "bool \<Rightarrow> qstring \<Rightarrow> MainWindow \<Rightarrow> MainWindow" where
  "onTransferComplete ok file_path mw =
     append_log (if ok then qs ''Transfer complete. File located in '' @ file_path
                 else qs ''Transfer failed. The device may not trust you yet, wait for the receiver to trust your device'')
       (mw\<lparr>mw_progress_shown := False\<rparr>)"

definition onNewDevice ::
  "json_lib \<Rightarrow> (bytes \<Rightarrow> bool) \<Rightarrow> (qstring \<Rightarrow> bool) \<Rightarrow> qstring \<Rightarrow> qstring \<Rightarrow> disk \<Rightarrow> MainWindow
     \<Rightarrow> disk \<times> MainWindow run" where
  "onNewDevice json writable reply fingerprint name disk mw =
     (let message = qs ''Unknown device tried to connect:'' @ [10, 10] @ qs ''Name: '' @ name @ [10]
        @ qs ''Fingerprint: '' @ fingerprint @ [10, 10] @ qs ''Trust this device? (They will need to send again)''
      in if reply message
         then let (disk, net) = trustDevice json writable disk (mw_net mw)
              in (disk, andThen net (\<lambda>nt. Inr (mw\<lparr>mw_net := nt\<rparr>)))
         else (disk, Inr (mw\<lparr>mw_net := ignorePendingTrust (mw_net mw)\<rparr>)))"

text \<open>The loop that looks for the device with the given label and sends to the first one.\<close>

definition device_label :: "qt_lib \<Rightarrow> DiscoveredDevice \<Rightarrow> qstring" where
  "device_label lib d = label (qs_from lib (dd_name d)) (qs_from lib (dd_ip d))"

fun send_matching ::
  "qt_lib \<Rightarrow> garbage \<Rightarrow> qstring \<Rightarrow> qstring \<Rightarrow> DiscoveredDevice list \<Rightarrow> MainWindow
     \<Rightarrow> (MainWindow \<times> net_effect list) option" where
  "send_matching lib ga text file_path [] mw = None"
| "send_matching lib ga text file_path (d # ds) mw =
     (if text = device_label lib d
      then let (_, nt, fx) = sendFile ga d (qs_to lib file_path) (mw_net mw)
           in Some (setValue 0 ((append_log (qs ''Sending '' @ file_path @ qs '' to '' @ qs_from lib (dd_name d) @ qs ''...'')
                      (mw\<lparr>mw_net := nt\<rparr>))\<lparr>mw_progress_shown := True\<rparr>), fx)
      else send_matching lib ga text file_path ds mw)"

definition onSendFile ::
  "qt_lib \<Rightarrow> garbage \<Rightarrow> qstring \<Rightarrow> qstring option \<Rightarrow> MainWindow \<Rightarrow> (MainWindow \<times> net_effect list) run" where
  "onSendFile lib ga filePath currentItem mw =
     (if filePath = [] then Inr (mw, [])
      else
        (case currentItem of
           None \<Rightarrow> Inr (append_log (qs ''No device selected.'') mw, [])
         | Some text \<Rightarrow>
             let mw = append_log (qs ''Sending to: '' @ text) mw in
             andThen (getNetDevices (mw_net mw)) (\<lambda>devices.
             (case send_matching lib ga text filePath devices mw of
                Some result \<Rightarrow> Inr result
              | None \<Rightarrow> Inr (append_log (qs ''Could not match selected device.'') mw, [])))))"

text \<open>
  While something is dragged over the window: whether the action is accepted, and the text of the
  item that gets selected (\<open>item\<close> is the one below the cursor). \<open>clearSelection\<close> leaves the
  current item as it is.
\<close>

definition dragEnterEvent :: "bool \<Rightarrow> bool" where
  "dragEnterEvent hasUrls = hasUrls"

definition dragMoveEvent :: "qstring option \<Rightarrow> qstring option \<Rightarrow> bool \<times> qstring option" where
  "dragMoveEvent item currentItem = (case item of Some text \<Rightarrow> (True, Some text) | None \<Rightarrow> (True, currentItem))"

definition closeEvent :: "net_env \<Rightarrow> MainWindow \<Rightarrow> (MainWindow \<times> net_effect list) run" where
  "closeEvent env mw =
     andThen (stopNet env (mw_net mw)) (\<lambda>(_, nt, fx). Inr (mw\<lparr>mw_net := nt\<rparr>, fx))"

text \<open>
  \<open>files\<close> are the local files of the dropped URLs, \<open>item\<close> the text of the item below the cursor,
  \<open>pick\<close> the answer to the list of devices.
\<close>

definition dropEvent ::
  "qt_lib \<Rightarrow> garbage \<Rightarrow> qstring list \<Rightarrow> qstring option \<Rightarrow> (qstring list \<Rightarrow> qstring option) \<Rightarrow> MainWindow
     \<Rightarrow> (MainWindow \<times> net_effect list) run" where
  "dropEvent lib ga files item pick mw =
     (case files of
        [] \<Rightarrow> Inl OutOfBounds
      | file_path # _ \<Rightarrow>
          if file_path = [] then Inr (mw, [])
          else
            let send = (\<lambda>text devices.
              (case send_matching lib ga text file_path devices mw of
                 Some result \<Rightarrow> Inr result | None \<Rightarrow> Inr (mw, [])))
            in andThen (getNetDevices (mw_net mw)) (\<lambda>devices.
               (case item of
                  Some text \<Rightarrow> send text devices
                | None \<Rightarrow>
                    if devices = [] then Inr (append_log (qs ''No devices available.'') mw, [])
                    else
                      (case pick (map (device_label lib) devices) of
                         None \<Rightarrow> Inr (mw, [])
                       | Some selected \<Rightarrow> send selected devices))))"

section \<open>Construction\<close>

text \<open>
  The loop that asks for a name until there is one. The answers are given as a list: \<open>None\<close> is the
  cancelled dialog, the end of the list a dialog that is still open.
\<close>

datatype name_dialog = Named NetTransfer | Cancelled NetTransfer | StillAsking

fun ask_name ::
  "qt_lib \<Rightarrow> net_env \<Rightarrow> qstring option list \<Rightarrow> disk \<Rightarrow> NetTransfer \<Rightarrow> disk \<times> name_dialog run" where
  "ask_name lib env [] disk nt =
     (disk, Inr (if bridge_getDeviceName lib nt = [] then StillAsking else Named nt))"
| "ask_name lib env (answer # answers) disk nt =
     (if bridge_getDeviceName lib nt \<noteq> [] then (disk, Inr (Named nt))
      else
        (case answer of
           None \<Rightarrow> (disk, Inr (Cancelled nt))
         | Some name \<Rightarrow>
             if qs_trimmed lib name \<noteq> []
             then (case bridge_setDeviceName lib env disk (qs_trimmed lib name) nt of
                     (disk, Inl e) \<Rightarrow> (disk, Inl e)
                   | (disk, Inr nt) \<Rightarrow> ask_name lib env answers disk nt)
             else ask_name lib env answers disk nt))"

text \<open>
  After a cancelled dialog the constructor returns without starting anything; \<open>quit\<close> is called
  before the event loop runs and has no effect. The result of \<open>start\<close> is ignored.
\<close>

definition newMainWindow ::
  "qt_lib \<Rightarrow> net_env \<Rightarrow> garbage \<Rightarrow> qstring option list \<Rightarrow> disk
     \<Rightarrow> disk \<times> (MainWindow \<times> net_effect list) option run" where
  "newMainWindow lib env ga answers disk =
     (let window = (\<lambda>nt. \<lparr>mw_net = nt, mw_deviceList = [], mw_log = [], mw_progress_shown = False,
       mw_progress_value = None\<rparr>) in
      case newNetTransfer env disk of
        Inl e \<Rightarrow> (disk, Inl e)
      | Inr nt \<Rightarrow>
          (case ask_name lib env answers disk nt of
             (disk, Inl e) \<Rightarrow> (disk, Inl e)
           | (disk, Inr StillAsking) \<Rightarrow> (disk, Inr None)
           | (disk, Inr (Cancelled nt)) \<Rightarrow> (disk, Inr (Some (window nt, [])))
           | (disk, Inr (Named nt)) \<Rightarrow>
               (case startNet env ga disk nt of
                  (disk, Inl e) \<Rightarrow> (disk, Inl e)
                | (disk, Inr (_, nt, fx)) \<Rightarrow> (disk, Inr (Some (window nt, fx))))))"

section \<open>Labels\<close>

text \<open>
  A device whose name is valid UTF-8, so that Qt's conversion keeps it, and whose address is
  printed without blanks.
\<close>

definition displayable :: "qt_lib \<Rightarrow> DiscoveredDevice \<Rightarrow> bool" where
  "displayable lib d \<longleftrightarrow> qs_to lib (qs_from lib (dd_name d)) = dd_name d \<and> 32 \<notin> set (qs_from lib (dd_ip d))"

lemma separator: "qs '' - '' = [32, 45, 32]"
  by (simp add: qs_def)

lemma label_address: "32 \<notin> set ip \<Longrightarrow> takeWhile (\<lambda>c. c \<noteq> 32) (rev (label name ip)) = rev ip"
  unfolding label_def separator rev_append by (simp, subst takeWhile_append2) auto

lemma label_inject:
  assumes "32 \<notin> set ip" and "32 \<notin> set ip'" and "label name ip = label name' ip'"
  shows "name = name'"
proof -
  have "rev ip = rev ip'" using label_address [OF assms(1)] label_address [OF assms(2)] assms(3) by metis
  with assms(3) show ?thesis by (simp add: label_def)
qed

lemma device_label_inject:
  assumes "displayable lib d" and "displayable lib d'" and "device_label lib d = device_label lib d'"
  shows "dd_name d = dd_name d'"
  using label_inject [of "qs_from lib (dd_ip d)" "qs_from lib (dd_ip d')" "qs_from lib (dd_name d)"
      "qs_from lib (dd_name d')"] assms
  by (metis displayable_def device_label_def)

section \<open>The list of devices\<close>

text \<open>The window as it takes in the signals of the discovery service.\<close>

fun deliver_device :: "bridge_signal \<Rightarrow> MainWindow \<Rightarrow> MainWindow" where
  "deliver_device (DeviceFound name ip port) mw = onDeviceFound name ip port mw"
| "deliver_device (DeviceLeft name ip port) mw = onDeviceLeft name ip port mw"
| "deliver_device _ mw = mw"

definition deliver_all :: "qt_lib \<Rightarrow> discovery_effect list \<Rightarrow> MainWindow \<Rightarrow> MainWindow" where
  "deliver_all lib fx mw = fold deliver_device (concat (map (net_signal lib \<circ> NDiscovery) fx)) mw"

text \<open>Found devices are new and devices that leave are known.\<close>

fun proper_event :: "(bytes \<times> bytes \<times> u16) list \<Rightarrow> discovery_effect \<Rightarrow> bool" where
  "proper_event ks (OnDeviceFound d) = (dd_name d \<notin> fst ` set ks)"
| "proper_event ks (OnDeviceLeft d) = (device_key d \<in> set ks)"
| "proper_event ks _ = True"

fun proper_events :: "(bytes \<times> bytes \<times> u16) list \<Rightarrow> discovery_effect list \<Rightarrow> bool" where
  "proper_events ks [] = True"
| "proper_events ks (e # fx) = (proper_event ks e \<and> proper_events (listen ks e) fx)"

lemma proper_append:
  "proper_events ks (fx @ gx) \<longleftrightarrow> proper_events ks fx \<and> proper_events (foldl listen ks fx) gx"
  by (induction fx arbitrary: ks) auto

lemma proper_note:
  assumes "note_device env sender dp st = (st', fx)"
  shows "proper_events (map device_key (ds_discoveredDevices st)) fx"
  using assms
  by (auto simp: note_device_def Let_def touch_device_None device_key_def image_image split: option.splits)

lemma proper_expired:
  assumes "distinct_names ds"
  shows "proper_events (map device_key ds) (map OnDeviceLeft (filter P ds))"
proof -
  have "proper_events (map device_key ds) (map OnDeviceLeft es)"
    if "distinct_names es" "set es \<subseteq> set ds" "distinct_names ds" for es ds
    using that
  proof (induction es arbitrary: ds)
    case (Cons e es)
    let ?ds = "filter (\<lambda>d. device_key d \<noteq> device_key e) ds"
    have "dd_name e \<notin> dd_name ` set es" using Cons.prems(1) by (simp add: distinct_names_def)
    then have "device_key x \<noteq> device_key e" if "x \<in> set es" for x
      using that by (metis device_key_def fst_conv imageI)
    then have "set es \<subseteq> set ?ds" using Cons.prems(2) by auto
    moreover have "distinct_names ?ds" "distinct_names es"
      using Cons.prems by (auto simp: distinct_names_def intro: distinct_map_filter)
    ultimately have "proper_events (map device_key ?ds) (map OnDeviceLeft es)" by (rule Cons.IH [rotated])
    moreover have "filter (\<lambda>k. k \<noteq> device_key e) (map device_key ds) = map device_key ?ds"
      by (simp add: filter_map comp_def)
    ultimately show ?case using Cons.prems by simp
  qed simp
  from this [of "filter P ds" ds] show ?thesis
    using assms by (simp add: distinct_names_def distinct_map_filter)
qed

lemma proper_quiet [simp]:
  "proper_events ks listenForPackages" "proper_events ks startTimer" "proper_events ks (sendBroadcast env st)"
  "proper_events ks [SendTo a p m]"
  by (simp_all add: listenForPackages_def startTimer_def sendBroadcast_def Let_def)

lemma proper_history_step:
  assumes "discovery_step s t" and "discovery_inv s" and "proper_events [] (sys_history s)"
  shows "proper_events [] (sys_history t)"
proof -
  have inv: "distinct_names (ds_discoveredDevices (sys_service s))"
    "foldl listen [] (sys_history s) = map device_key (ds_discoveredDevices (sys_service s))"
    using assms(2) by (simp_all add: discovery_inv_def)
  show ?thesis
    using assms(1)
  proof cases
    case (package env ec sender pkt st fx)
    have "proper_events (map device_key (ds_discoveredDevices (sys_service s))) fx"
      using on_package_cases [OF package(3)]
      by (auto simp: noted_def proper_append dest: proper_note)
    with package(1) assms(3) inv(2) show ?thesis by (simp add: proper_append)
  next
    case (timer env ec st fx)
    have "proper_events (map device_key (ds_discoveredDevices (sys_service s))) fx"
      using timer(3) proper_expired [OF inv(1)]
      by (auto simp: on_timer_def checkExpiredDevices_alt proper_append foldl_listen_sends split: if_splits)
    with timer(1) assms(3) inv(2) show ?thesis by (simp add: proper_append)
  qed (use assms(3) in simp_all)
qed

lemma proper_history_init:
  "discovery_init s \<Longrightarrow> proper_events [] (sys_history s)"
  by (auto simp: discovery_init_def proper_append dest!: startDiscovery_True)

interpretation proper_machine: state_machine discovery_init discovery_step
  "\<lambda>s. discovery_inv s \<and> proper_events [] (sys_history s)"
  by unfold_locales
    (auto intro: discovery_inv_init discovery_inv_step proper_history_init proper_history_step)

text \<open>The list after any proper sequence of events.\<close>

definition key_label :: "qt_lib \<Rightarrow> bytes \<times> bytes \<times> u16 \<Rightarrow> qstring" where
  "key_label lib k = label (qs_from lib (fst k)) (qs_from lib (fst (snd k)))"

definition key_displayable :: "qt_lib \<Rightarrow> bytes \<times> bytes \<times> u16 \<Rightarrow> bool" where
  "key_displayable lib k \<longleftrightarrow> qs_to lib (qs_from lib (fst k)) = fst k \<and> 32 \<notin> set (qs_from lib (fst (snd k)))"

lemma key_simps [simp]:
  "key_label lib (device_key d) = device_label lib d"
  "key_displayable lib (device_key d) = displayable lib d"
  by (simp_all add: key_label_def device_label_def key_displayable_def displayable_def device_key_def)

lemma key_label_inject:
  assumes "key_displayable lib k" and "key_displayable lib k'" and "key_label lib k = key_label lib k'"
  shows "fst k = fst k'"
  using label_inject [of "qs_from lib (fst (snd k))" "qs_from lib (fst (snd k'))" "qs_from lib (fst k)"
      "qs_from lib (fst k')"] assms
  by (metis key_displayable_def key_label_def)

lemma deliver_event:
  assumes "proper_event ks e" and "distinct (map fst ks)" and "\<forall>k \<in> set ks. key_displayable lib k"
    and "\<And>d. e = OnDeviceFound d \<Longrightarrow> displayable lib d"
    and "mw_deviceList mw = map (key_label lib) ks"
  shows "mw_deviceList (fold deliver_device (net_signal lib (NDiscovery e)) mw) = map (key_label lib) (listen ks e)
    \<and> distinct (map fst (listen ks e)) \<and> (\<forall>k \<in> set (listen ks e). key_displayable lib k)"
proof (cases e)
  case (OnDeviceFound d)
  with assms show ?thesis
    by (auto simp: onDeviceFound_def device_label_def device_key_def key_label_def key_displayable_def displayable_def)
next
  case (OnDeviceLeft d)
  have "key_label lib k \<noteq> device_label lib d \<longleftrightarrow> k \<noteq> device_key d" if "k \<in> set ks" for k
  proof -
    have d: "device_key d \<in> set ks" using assms(1) OnDeviceLeft by simp
    have "inj_on fst (set ks)" using assms(2) by (simp add: distinct_map)
    moreover have "fst k = fst (device_key d)" if "key_label lib k = key_label lib (device_key d)"
      using key_label_inject [OF _ _ that] assms(3) d \<open>k \<in> set ks\<close> by blast
    ultimately have "k = device_key d" if "key_label lib k = key_label lib (device_key d)"
      using that d \<open>k \<in> set ks\<close> by (metis inj_onD)
    then show ?thesis by auto
  qed
  then have "filter (\<lambda>text. text \<noteq> device_label lib d) (map (key_label lib) ks)
      = map (key_label lib) (filter (\<lambda>k. k \<noteq> device_key d) ks)"
    by (simp add: filter_map comp_def cong: filter_cong)
  with OnDeviceLeft assms(2,3,5) show ?thesis
    by (auto simp: onDeviceLeft_def device_label_def intro: distinct_map_filter)
qed (use assms in simp_all)

lemma deliver_events:
  assumes "proper_events ks fx" and "distinct (map fst ks)" and "\<forall>k \<in> set ks. key_displayable lib k"
    and "\<forall>d. OnDeviceFound d \<in> set fx \<longrightarrow> displayable lib d" and "mw_deviceList mw = map (key_label lib) ks"
  shows "mw_deviceList (deliver_all lib fx mw) = map (key_label lib) (foldl listen ks fx)"
  using assms
proof (induction fx arbitrary: ks mw)
  case Nil
  then show ?case by (simp add: deliver_all_def)
next
  case (Cons e fx)
  let ?mw = "fold deliver_device (net_signal lib (NDiscovery e)) mw"
  have "mw_deviceList (deliver_all lib fx ?mw) = map (key_label lib) (foldl listen (listen ks e) fx)"
    using deliver_event [of ks e lib mw] Cons.prems by (intro Cons.IH) auto
  then show ?case by (simp add: deliver_all_def)
qed

lemma displayable_known:
  assumes "\<forall>d. OnDeviceFound d \<in> set fx \<longrightarrow> displayable lib d" and "\<forall>k \<in> set ks. key_displayable lib k"
    and "k \<in> set (foldl listen ks fx)"
  shows "key_displayable lib k"
  using assms
proof (induction fx arbitrary: ks)
  case (Cons e fx)
  have "\<forall>k \<in> set (listen ks e). key_displayable lib k"
    using Cons.prems by (cases e) (auto simp del: split_paired_All split_paired_Ex)
  with Cons show ?case by simp
qed simp

section \<open>Choosing a device\<close>

lemma send_matching_found:
  assumes "d \<in> set devices" and "distinct_names devices" and "\<forall>x \<in> set devices. displayable lib x"
  shows "\<exists>mw'. send_matching lib ga (device_label lib d) path devices mw = Some (mw', [NPostStartSender])
    \<and> mw_net mw' = fst (snd (sendFile ga d (qs_to lib path) (mw_net mw))) \<and> mw_progress_shown mw'"
  using assms
proof (induction devices)
  case (Cons x xs)
  show ?case
  proof (cases "device_label lib d = device_label lib x")
    case True
    then have "dd_name d = dd_name x" using device_label_inject [of lib d x] Cons.prems by auto
    then have "d = x" using Cons.prems by (metis distinct_names_def distinct_map inj_onD list.set_intros(1))
    then show ?thesis by (simp add: sendFile_def append_log_def setValue_def Let_def)
  next
    case False
    with Cons show ?thesis by (auto simp: distinct_names_def)
  qed
qed simp

lemma send_matching_none:
  "text \<notin> device_label lib ` set devices \<Longrightarrow> send_matching lib ga text path devices mw = None"
  by (induction devices) auto

section \<open>Properties\<close>

text \<open>
  C28. The list in the window shows the devices the discovery service knows, in the same order: in
  every execution of a started service, an empty list that has taken in all signals queued so far
  consists of the labels of the table's devices, each once. This holds for devices whose names
  are valid UTF-8; the removal by label then never removes the item of another device.
\<close>

theorem device_list_shows_table:
  assumes "discovery_init s0" and "discovery_step\<^sup>*\<^sup>* s0 s"
    and "\<forall>d. OnDeviceFound d \<in> set (sys_history s) \<longrightarrow> displayable lib d"
    and "mw_deviceList mw = []"
  shows "mw_deviceList (deliver_all lib (sys_history s) mw)
      = map (device_label lib) (getDevices (sys_service s))
    \<and> distinct (mw_deviceList (deliver_all lib (sys_history s) mw))"
proof -
  have inv: "discovery_inv s" "proper_events [] (sys_history s)"
    using proper_machine.reachable_inv [OF assms(1,2)] by simp_all
  let ?ds = "ds_discoveredDevices (sys_service s)"
  have ks: "foldl listen [] (sys_history s) = map device_key ?ds" and dn: "distinct_names ?ds"
    using inv(1) by (simp_all add: discovery_inv_def)
  have list: "mw_deviceList (deliver_all lib (sys_history s) mw) = map (device_label lib) ?ds"
    using deliver_events [of "[]" "sys_history s" lib mw] inv(2) assms(3,4) by (simp add: ks)
  have "displayable lib d" if "d \<in> set ?ds" for d
    using displayable_known [OF assms(3), of "[]" "device_key d"] that by (simp add: ks)
  then have "inj_on (device_label lib) (set ?ds)"
    using dn by (intro inj_onI) (metis device_label_inject distinct_map distinct_names_def inj_onD)
  then have "distinct (map (device_label lib) ?ds)"
    using dn by (simp add: distinct_map distinct_names_def)
  with list show ?thesis by (simp add: getDevices_def)
qed

text \<open>A conversion that keeps every byte.\<close>

definition sample_qt :: qt_lib where
  "sample_qt = \<lparr>qs_from = map ucast, qs_to = map ucast, qs_trimmed = id, qs_number = (\<lambda>_ _. [])\<rparr>"

definition empty_window :: "NetTransfer \<Rightarrow> MainWindow" where
  "empty_window nt = \<lparr>mw_net = nt, mw_deviceList = [], mw_log = [], mw_progress_shown = False,
       mw_progress_value = None\<rparr>"

lemma sample_displayable: "displayable sample_qt seen_a"
  by (simp add: displayable_def sample_qt_def)

lemma sample_label: "device_label sample_qt seen_a = [0x61, 32, 45, 32, 0x31]"
  by (simp add: device_label_def sample_qt_def label_def separator)

theorem device_list_shows_table_witness:
  "\<exists>s. discovery_step\<^sup>*\<^sup>* started_b s
     \<and> mw_deviceList (deliver_all sample_qt (sys_history s) (empty_window fresh_net)) = [[0x61, 32, 45, 32, 0x31]]"
proof -
  obtain s where s: "discovery_step\<^sup>*\<^sup>* started_b s" "getDevices (sys_service s) = [seen_a]"
    "\<forall>d. OnDeviceFound d \<in> set (sys_history s) \<longrightarrow> displayable sample_qt d"
    using sample_discovery_run sample_displayable by metis
  then show ?thesis
    using device_list_shows_table [OF started_b_init s(1,3), of "empty_window fresh_net"]
    by (intro exI [of _ s]) (simp add: empty_window_def sample_label)
qed

definition starts_sending :: "TransferSender \<Rightarrow> (MainWindow \<times> net_effect list) run \<Rightarrow> bool" where
  "starts_sending sender r \<longleftrightarrow>
     (\<exists>mw'. r = Inr (mw', [NPostStartSender]) \<and> nt_active_sender (mw_net mw') = Some sender)"

lemma append_log_net [simp]: "mw_net (append_log line mw) = mw_net mw"
  by (simp add: append_log_def)

lemma send_matching_sender:
  assumes "d \<in> set devices" and "distinct_names devices" and "\<forall>x \<in> set devices. displayable lib x"
  obtains mw' where "send_matching lib ga (device_label lib d) path devices mw = Some (mw', [NPostStartSender])"
    and "nt_active_sender (mw_net mw') = Some (newTransferSender (dd_ip d) (dd_tcp_port d) (qs_to lib path)
      (getDeviceName (mw_net mw)) (ga_sid ga) (ga_tcp ga) (ga_sha ga) (ga_u64 ga))"
  using send_matching_found [OF assms, of ga path mw] by (auto simp: sendFile_def getDeviceName_def)

lemma button_sends:
  assumes "getNetDevices (mw_net mw) = Inr devices" and "path \<noteq> []"
    and "d \<in> set devices" and "distinct_names devices" and "\<forall>x \<in> set devices. displayable lib x"
  shows "starts_sending (newTransferSender (dd_ip d) (dd_tcp_port d) (qs_to lib path)
      (getDeviceName (mw_net mw)) (ga_sid ga) (ga_tcp ga) (ga_sha ga) (ga_u64 ga))
      (onSendFile lib ga path (Some (device_label lib d)) mw)"
  by (rule send_matching_sender [OF assms(3-5), of ga path
        "append_log (qs ''Sending to: '' @ device_label lib d) mw"])
    (use assms(1,2) in \<open>simp add: onSendFile_def starts_sending_def Let_def\<close>)

lemma drop_sends:
  assumes "getNetDevices (mw_net mw) = Inr devices" and "path \<noteq> []"
    and "d \<in> set devices" and "distinct_names devices" and "\<forall>x \<in> set devices. displayable lib x"
    and "item = Some (device_label lib d) \<or>
      item = None \<and> pick (map (device_label lib) devices) = Some (device_label lib d)"
  shows "starts_sending (newTransferSender (dd_ip d) (dd_tcp_port d) (qs_to lib path)
      (getDeviceName (mw_net mw)) (ga_sid ga) (ga_tcp ga) (ga_sha ga) (ga_u64 ga))
      (dropEvent lib ga (path # rest) item pick mw)"
  by (rule send_matching_sender [OF assms(3-5), of ga path mw])
    (use assms(1,2,3,6) in \<open>auto simp: dropEvent_def starts_sending_def Let_def\<close>)

lemma unknown_label_sends_nothing:
  assumes "getNetDevices (mw_net mw) = Inr devices" and "text \<notin> device_label lib ` set devices"
  shows "\<exists>mw'. onSendFile lib ga path (Some text) mw = Inr (mw', []) \<and> mw_net mw' = mw_net mw"
    and "path \<noteq> [] \<Longrightarrow> dropEvent lib ga (path # rest) (Some text) pick mw = Inr (mw, [])"
  using assms by (simp_all add: onSendFile_def dropEvent_def send_matching_none Let_def)

text \<open>
  C29. The file goes to the device the user picked. For a device of the table, in a table with
  distinct names that are valid UTF-8, selecting its label and pressing the button, dropping the
  file on its label, or choosing its label in the dialog after dropping the file elsewhere all
  leave the same sender: for this device's address and port and the chosen file. Picking a label
  that no longer belongs to a device sends nothing.
\<close>

theorem picked_device_gets_file:
  assumes "nt_discovery (mw_net mw) = Some disc" and "distinct_names (getDevices disc)"
    and "\<forall>x \<in> set (getDevices disc). displayable lib x" and "path \<noteq> []"
    and "pick (map (device_label lib) (getDevices disc)) = Some text"
  shows "(\<forall>d \<in> set (getDevices disc). text = device_label lib d \<longrightarrow>
      (let sender = newTransferSender (dd_ip d) (dd_tcp_port d) (qs_to lib path) (getDeviceName (mw_net mw))
            (ga_sid ga) (ga_tcp ga) (ga_sha ga) (ga_u64 ga)
       in starts_sending sender (onSendFile lib ga path (Some text) mw)
        \<and> starts_sending sender (dropEvent lib ga (path # rest) (Some text) pick mw)
        \<and> starts_sending sender (dropEvent lib ga (path # rest) None pick mw)))
    \<and> (text \<notin> device_label lib ` set (getDevices disc) \<longrightarrow>
      (\<exists>mw'. onSendFile lib ga path (Some text) mw = Inr (mw', []) \<and> mw_net mw' = mw_net mw)
      \<and> dropEvent lib ga (path # rest) (Some text) pick mw = Inr (mw, []))"
proof -
  have g: "getNetDevices (mw_net mw) = Inr (getDevices disc)"
    using assms(1) by (simp add: getNetDevices_def)
  show ?thesis
    using button_sends [OF g assms(4) _ assms(2,3)] drop_sends [OF g assms(4) _ assms(2,3)]
      unknown_label_sends_nothing [OF g] assms(4,5)
    by (auto simp: Let_def)
qed

definition window_with_a :: MainWindow where
  "window_with_a = empty_window (fresh_net\<lparr>nt_discovery := Some (node_b\<lparr>ds_discoveredDevices := [seen_a]\<rparr>)\<rparr>)"

theorem picked_device_gets_file_witness:
  "starts_sending (newTransferSender [0x31] 50001 [47] [65] 7 (replicate MAX_BUFFER_SIZE 0) [] 0)
     (onSendFile sample_qt sample_garbage [47] (Some [0x61, 32, 45, 32, 0x31]) window_with_a)"
proof -
  let ?disc = "node_b\<lparr>ds_discoveredDevices := [seen_a]\<rparr>"
  have "nt_discovery (mw_net window_with_a) = Some ?disc" "getDevices ?disc = [seen_a]"
    "getDeviceName (mw_net window_with_a) = [65]"
    by (simp_all add: window_with_a_def empty_window_def getDevices_def getDeviceName_def fresh_net_def)
  then show ?thesis
    using picked_device_gets_file [of window_with_a ?disc sample_qt "[47]" "\<lambda>_. Some (device_label sample_qt seen_a)"
        "device_label sample_qt seen_a" sample_garbage] sample_displayable
    by (simp add: distinct_names_def sample_label sample_garbage_def Let_def) (simp add: sample_qt_def)
qed

text \<open>
  C30. The first run. Without a configuration file the window asks for a name. The first name that
  is not blank empties the configuration file and then saves a port that was never set. A
  cancelled dialog leaves a window without services, because \<open>quit\<close> has no effect before the event
  loop runs: closing it, or dropping a file on it, dereferences a null pointer.
\<close>

theorem first_run:
  assumes "getConfigPath (ne_xdg env) (ne_home env) (ne_mkdir_ok env) = Inr dir"
    and "disk (dir @ CONFIG_FILE) = None" and "ne_writable env (dir @ CONFIG_FILE)"
    and "qs_from lib [] = []" and "qs_trimmed lib name \<noteq> []"
    and "\<forall>b \<in> set blanks. \<exists>n. b = Some n \<and> qs_trimmed lib n = []"
  shows "newMainWindow lib env ga (blanks @ Some name # rest) disk
      = (disk(dir @ CONFIG_FILE \<mapsto> []), Inl Uninitialised)
    \<and> newMainWindow lib env ga blanks disk = (disk, Inr None)
    \<and> (\<exists>mw. newMainWindow lib env ga (blanks @ None # rest) disk = (disk, Inr (Some (mw, [])))
        \<and> closeEvent env mw = Inl OutOfBounds
        \<and> (\<forall>path. path \<noteq> [] \<longrightarrow> dropEvent lib ga [path] None pick mw = Inl OutOfBounds))"
proof -
  obtain nt where nt: "newNetTransfer env disk = Inr nt" "getDeviceName nt = []" "nt_dir nt = dir"
    "cf_tcp_port (nt_config nt) = None" "nt_discovery nt = None"
    using assms(1,2) by (simp add: newNetTransfer_def loadConfig_def getDeviceName_def)
  have blanks: "ask_name lib env (blanks @ answers) disk nt = ask_name lib env answers disk nt" for answers
    using assms(6) by (induction blanks) (auto simp: nt(2) assms(4) bridge_getDeviceName_def)
  have name: "ask_name lib env (Some name # rest) disk nt = (disk(dir @ CONFIG_FILE \<mapsto> []), Inl Uninitialised)"
    using assms(3-5) nt by (simp add: bridge_getDeviceName_def bridge_setDeviceName_def setNetDeviceName_def saveConfig_def Let_def)
  show ?thesis
    using blanks [of "[]"] name
    by (simp add: newMainWindow_def nt blanks assms(4) closeEvent_def stopNet_def dropEvent_def getNetDevices_def
        bridge_getDeviceName_def)
qed

theorem first_run_witness:
  "snd (newMainWindow sample_qt sample_net_env sample_garbage [Some [], Some [65]] Map.empty) = Inl Uninitialised"
proof -
  obtain dir where "getConfigPath (ne_xdg sample_net_env) (ne_home sample_net_env) (ne_mkdir_ok sample_net_env) = Inr dir"
    by (simp add: getConfigPath_def sample_net_env_def)
  then show ?thesis
    using first_run [of sample_net_env dir Map.empty sample_qt "[65]" "[Some []]" sample_garbage "[]"]
    by (simp add: sample_qt_def sample_net_env_def)
qed

end
