(* ===== verification/Callbacks.thy ===== *)
theory Callbacks
  imports Main_Window
begin

text \<open>
  How an event of a service reaches the window. The services hold \<open>std::function\<close> members that their
  setters fill; they call most of them without testing them, and calling an empty one throws
  \<open>std::bad_function_call\<close>. \<open>NetTransfer::start\<close> and \<open>sendFile\<close> install functions that forward to the
  members of \<open>NetTransfer\<close>, and \<open>NetTransferBridge::start\<close> installs those that queue signals
  (\<open>discovery.cpp\<close>, \<open>transfer.cpp\<close>, \<open>NetTransfer.cpp\<close>, \<open>NetTransferBridge.cpp\<close>). A callback is modelled by
  the list of what it does in the end; the strand that forwards the calls keeps their order.
\<close>

section \<open>Members and setters\<close>

record 'e discovery_callbacks =
  dc_onDeviceFound :: "(DiscoveredDevice \<Rightarrow> 'e list) option"
  dc_onDeviceLeft :: "(DiscoveredDevice \<Rightarrow> 'e list) option"

record 'e sender_callbacks =
  sc_onProgress :: "(u64 \<Rightarrow> u64 \<Rightarrow> 'e list) option"
  sc_onComplete :: "(bool \<Rightarrow> bytes \<Rightarrow> 'e list) option"
  sc_onValidateCert :: "(bytes option \<Rightarrow> bytes \<Rightarrow> bool) option"

record 'e receiver_callbacks =
  rc_onProgress :: "(u64 \<Rightarrow> u64 \<Rightarrow> 'e list) option"
  rc_onComplete :: "(bool \<Rightarrow> bytes \<Rightarrow> 'e list) option"
  rc_onOffer :: "(OfferPayload \<Rightarrow> 'e list) option"

record 'e net_callbacks =
  nc_onDeviceFound :: "(DiscoveredDevice \<Rightarrow> 'e list) option"
  nc_onDeviceLeft :: "(DiscoveredDevice \<Rightarrow> 'e list) option"
  nc_onProgress :: "(u64 \<Rightarrow> u64 \<Rightarrow> 'e list) option"
  nc_onComplete :: "(bool \<Rightarrow> bytes \<Rightarrow> 'e list) option"
  nc_onOffer :: "(OfferPayload \<Rightarrow> 'e list) option"
  nc_onNewDevice :: "(bytes \<Rightarrow> bytes \<Rightarrow> 'e list) option"
  nc_onFirstRun :: "(unit \<Rightarrow> bytes) option"  \<comment> \<open>never called\<close>

text \<open>Constructed objects have no callbacks.\<close>

definition no_discovery_callbacks :: "'e discovery_callbacks" where
  "no_discovery_callbacks = \<lparr>dc_onDeviceFound = None, dc_onDeviceLeft = None\<rparr>"

definition no_sender_callbacks :: "'e sender_callbacks" where
  "no_sender_callbacks = \<lparr>sc_onProgress = None, sc_onComplete = None, sc_onValidateCert = None\<rparr>"

definition no_receiver_callbacks :: "'e receiver_callbacks" where
  "no_receiver_callbacks = \<lparr>rc_onProgress = None, rc_onComplete = None, rc_onOffer = None\<rparr>"

definition no_net_callbacks :: "'e net_callbacks" where
  "no_net_callbacks = \<lparr>nc_onDeviceFound = None, nc_onDeviceLeft = None, nc_onProgress = None,
     nc_onComplete = None, nc_onOffer = None, nc_onNewDevice = None, nc_onFirstRun = None\<rparr>"

definition discovery_setOnDeviceFound ::
  "(DiscoveredDevice \<Rightarrow> 'e list) \<Rightarrow> 'e discovery_callbacks \<Rightarrow> 'e discovery_callbacks" where
  "discovery_setOnDeviceFound callback cb = cb\<lparr>dc_onDeviceFound := Some callback\<rparr>"

definition discovery_setOnDeviceLeft ::
  "(DiscoveredDevice \<Rightarrow> 'e list) \<Rightarrow> 'e discovery_callbacks \<Rightarrow> 'e discovery_callbacks" where
  "discovery_setOnDeviceLeft callback cb = cb\<lparr>dc_onDeviceLeft := Some callback\<rparr>"

definition sender_setOnProgress :: "(u64 \<Rightarrow> u64 \<Rightarrow> 'e list) \<Rightarrow> 'e sender_callbacks \<Rightarrow> 'e sender_callbacks" where
  "sender_setOnProgress callback cb = cb\<lparr>sc_onProgress := Some callback\<rparr>"

definition sender_setOnComplete :: "(bool \<Rightarrow> bytes \<Rightarrow> 'e list) \<Rightarrow> 'e sender_callbacks \<Rightarrow> 'e sender_callbacks" where
  "sender_setOnComplete callback cb = cb\<lparr>sc_onComplete := Some callback\<rparr>"

definition sender_setOnValidateCert ::
  "(bytes option \<Rightarrow> bytes \<Rightarrow> bool) \<Rightarrow> 'e sender_callbacks \<Rightarrow> 'e sender_callbacks" where
  "sender_setOnValidateCert callback cb = cb\<lparr>sc_onValidateCert := Some callback\<rparr>"

definition receiver_setOnProgress :: "(u64 \<Rightarrow> u64 \<Rightarrow> 'e list) \<Rightarrow> 'e receiver_callbacks \<Rightarrow> 'e receiver_callbacks" where
  "receiver_setOnProgress callback cb = cb\<lparr>rc_onProgress := Some callback\<rparr>"

definition receiver_setOnComplete ::
  "(bool \<Rightarrow> bytes \<Rightarrow> 'e list) \<Rightarrow> 'e receiver_callbacks \<Rightarrow> 'e receiver_callbacks" where
  "receiver_setOnComplete callback cb = cb\<lparr>rc_onComplete := Some callback\<rparr>"

definition receiver_setOnOffer ::
  "(OfferPayload \<Rightarrow> 'e list) \<Rightarrow> 'e receiver_callbacks \<Rightarrow> 'e receiver_callbacks" where
  "receiver_setOnOffer callback cb = cb\<lparr>rc_onOffer := Some callback\<rparr>"

definition receiver_setOnValidateCert :: "(bytes \<Rightarrow> bool) \<Rightarrow> receiver_env \<Rightarrow> receiver_env" where
  "receiver_setOnValidateCert callback env = env\<lparr>re_valid := Some callback\<rparr>"

definition setOnDeviceFound :: "(DiscoveredDevice \<Rightarrow> 'e list) \<Rightarrow> 'e net_callbacks \<Rightarrow> 'e net_callbacks" where
  "setOnDeviceFound callback nc = nc\<lparr>nc_onDeviceFound := Some callback\<rparr>"

definition setOnDeviceLeft :: "(DiscoveredDevice \<Rightarrow> 'e list) \<Rightarrow> 'e net_callbacks \<Rightarrow> 'e net_callbacks" where
  "setOnDeviceLeft callback nc = nc\<lparr>nc_onDeviceLeft := Some callback\<rparr>"

definition setOnProgress :: "(u64 \<Rightarrow> u64 \<Rightarrow> 'e list) \<Rightarrow> 'e net_callbacks \<Rightarrow> 'e net_callbacks" where
  "setOnProgress callback nc = nc\<lparr>nc_onProgress := Some callback\<rparr>"

definition setOnComplete :: "(bool \<Rightarrow> bytes \<Rightarrow> 'e list) \<Rightarrow> 'e net_callbacks \<Rightarrow> 'e net_callbacks" where
  "setOnComplete callback nc = nc\<lparr>nc_onComplete := Some callback\<rparr>"

definition setOnOffer :: "(OfferPayload \<Rightarrow> 'e list) \<Rightarrow> 'e net_callbacks \<Rightarrow> 'e net_callbacks" where
  "setOnOffer callback nc = nc\<lparr>nc_onOffer := Some callback\<rparr>"

definition setOnNewDevice :: "(bytes \<Rightarrow> bytes \<Rightarrow> 'e list) \<Rightarrow> 'e net_callbacks \<Rightarrow> 'e net_callbacks" where
  "setOnNewDevice callback nc = nc\<lparr>nc_onNewDevice := Some callback\<rparr>"

definition setOnFirstRun :: "(unit \<Rightarrow> bytes) \<Rightarrow> 'e net_callbacks \<Rightarrow> 'e net_callbacks" where
  "setOnFirstRun callback nc = nc\<lparr>nc_onFirstRun := Some callback\<rparr>"

section \<open>Installing\<close>

text \<open>\<open>if (onX) onX(...)\<close>.\<close>

definition guarded :: "('a \<Rightarrow> 'e list) option \<Rightarrow> 'a \<Rightarrow> 'e list" where
  "guarded f x = (case f of None \<Rightarrow> [] | Some g \<Rightarrow> g x)"

definition guarded2 :: "('a \<Rightarrow> 'b \<Rightarrow> 'e list) option \<Rightarrow> 'a \<Rightarrow> 'b \<Rightarrow> 'e list" where
  "guarded2 f x y = (case f of None \<Rightarrow> [] | Some g \<Rightarrow> g x y)"

text \<open>
  The functions that \<open>start\<close> installs read the members of \<open>NetTransfer\<close> when they run; \<open>nc\<close> is their
  value at that time.
\<close>

definition start_discovery_callbacks :: "'e net_callbacks \<Rightarrow> 'e discovery_callbacks" where
  "start_discovery_callbacks nc =
     discovery_setOnDeviceLeft (guarded (nc_onDeviceLeft nc))
       (discovery_setOnDeviceFound (guarded (nc_onDeviceFound nc)) no_discovery_callbacks)"

definition start_receiver_callbacks :: "'e net_callbacks \<Rightarrow> 'e receiver_callbacks" where
  "start_receiver_callbacks nc =
     receiver_setOnComplete (guarded2 (nc_onComplete nc))
       (receiver_setOnProgress (guarded2 (nc_onProgress nc))
         (receiver_setOnOffer (guarded (nc_onOffer nc)) no_receiver_callbacks))"

text \<open>
  \<open>sendFile\<close> copies the progress callback that is set when it is called (\<open>nc0\<close>), if any; the
  completion callback is looked up when it is called and gets an empty path.
\<close>

definition send_callbacks :: "'e net_callbacks \<Rightarrow> 'e net_callbacks \<Rightarrow> 'e sender_callbacks" where
  "send_callbacks nc0 nc =
     sender_setOnComplete (\<lambda>success file_path. guarded2 (nc_onComplete nc) success [])
       (case nc_onProgress nc0 of
          None \<Rightarrow> no_sender_callbacks
        | Some f \<Rightarrow> sender_setOnProgress f no_sender_callbacks)"

definition bridge_start :: "qt_lib \<Rightarrow> bridge_signal net_callbacks \<Rightarrow> bridge_signal net_callbacks" where
  "bridge_start lib nc =
     setOnDeviceLeft (\<lambda>d. [DeviceLeft (qs_from lib (dd_name d)) (qs_from lib (dd_ip d)) (dd_tcp_port d)])
       (setOnNewDevice (\<lambda>fingerprint name. [NewDevicePending (qs_from lib fingerprint) (qs_from lib name)])
         (setOnComplete (\<lambda>ok path. [TransferComplete ok (qs_from lib path)])
           (setOnProgress (\<lambda>sent amount. [ProgressUpdated sent amount])
             (setOnOffer (\<lambda>offer. [OfferReceived (qs_from lib (op_file_name offer)) (op_file_size offer)
                                     (qs_from lib (op_device_name offer))])
               (setOnDeviceFound (\<lambda>d. [DeviceFound (qs_from lib (dd_name d)) (qs_from lib (dd_ip d)) (dd_tcp_port d)])
                 nc)))))"

section \<open>Calling\<close>

text \<open>The services call their members without testing them.\<close>

definition call :: "('a \<Rightarrow> 'e list) option \<Rightarrow> 'a \<Rightarrow> 'e list run" where
  "call f x = (case f of None \<Rightarrow> Inl Uncaught | Some g \<Rightarrow> Inr (g x))"

definition call2 :: "('a \<Rightarrow> 'b \<Rightarrow> 'e list) option \<Rightarrow> 'a \<Rightarrow> 'b \<Rightarrow> 'e list run" where
  "call2 f x y = (case f of None \<Rightarrow> Inl Uncaught | Some g \<Rightarrow> Inr (g x y))"

fun discovery_call :: "'e discovery_callbacks \<Rightarrow> discovery_effect \<Rightarrow> 'e list run" where
  "discovery_call cb (OnDeviceFound d) = call (dc_onDeviceFound cb) d"
| "discovery_call cb (OnDeviceLeft d) = call (dc_onDeviceLeft cb) d"
| "discovery_call cb _ = Inr []"

fun receiver_call :: "'e receiver_callbacks \<Rightarrow> receiver_effect \<Rightarrow> 'e list run" where
  "receiver_call cb (ROffer offer) = call (rc_onOffer cb) offer"
| "receiver_call cb (RProgress sent amount) = call2 (rc_onProgress cb) sent amount"
| "receiver_call cb (RComplete ok path) = call2 (rc_onComplete cb) ok path"
| "receiver_call cb _ = Inr []"

fun sender_call :: "'e sender_callbacks \<Rightarrow> sender_effect \<Rightarrow> 'e list run" where
  "sender_call cb (SProgress sent amount) = call2 (sc_onProgress cb) sent amount"
| "sender_call cb (SComplete ok path) = call2 (sc_onComplete cb) ok path"
| "sender_call cb _ = Inr []"

fun net_call :: "'e net_callbacks \<Rightarrow> net_effect \<Rightarrow> 'e list run" where
  "net_call nc (NDiscovery e) = discovery_call (start_discovery_callbacks nc) e"
| "net_call nc (NReceiver e) = receiver_call (start_receiver_callbacks nc) e"
| "net_call nc (NNewDevice fingerprint name) = Inr (guarded2 (nc_onNewDevice nc) fingerprint name)"
| "net_call nc _ = Inr []"

text \<open>The calls of a handler, in order; an exception ends the program.\<close>

fun calls :: "('f \<Rightarrow> 'e list run) \<Rightarrow> 'f list \<Rightarrow> 'e list run" where
  "calls f [] = Inr []"
| "calls f (e # es) = andThen (f e) (\<lambda>xs. andThen (calls f es) (\<lambda>ys. Inr (xs @ ys)))"

lemma calls_map:
  assumes "\<And>e. f e = Inr (g e)"
  shows "calls f es = Inr (concat (map g es))"
  by (induction es) (simp_all add: assms)

lemmas callback_defs = call_def call2_def guarded_def guarded2_def
  start_discovery_callbacks_def start_receiver_callbacks_def send_callbacks_def
  no_discovery_callbacks_def no_receiver_callbacks_def no_sender_callbacks_def
  discovery_setOnDeviceFound_def discovery_setOnDeviceLeft_def
  receiver_setOnOffer_def receiver_setOnProgress_def receiver_setOnComplete_def
  sender_setOnProgress_def sender_setOnComplete_def

lemmas bridge_defs = bridge_start_def setOnDeviceFound_def setOnDeviceLeft_def setOnProgress_def
  setOnComplete_def setOnOffer_def setOnNewDevice_def

section \<open>Properties\<close>

text \<open>
  C35. What the window is told: with the callbacks that the bridge, \<open>start\<close> and \<open>sendFile\<close> install,
  handling any sequence of effects of the program or of a sender calls no empty function and queues
  exactly the signals of \<open>net_signal\<close> and \<open>sender_signal\<close>, in order.
\<close>

theorem installed_callbacks_signal:
  "calls (net_call (bridge_start lib nc)) es = Inr (concat (map (net_signal lib) es))
   \<and> calls (sender_call (send_callbacks (bridge_start lib nc) (bridge_start lib nc'))) fx
      = Inr (concat (map (sender_signal lib) fx))"
proof -
  have "net_call (bridge_start lib nc) e = Inr (net_signal lib e)" for e
    by (cases "(lib, e)" rule: net_signal.cases) (simp_all add: callback_defs bridge_defs)
  moreover have "sender_call (send_callbacks (bridge_start lib nc) (bridge_start lib nc')) e = Inr (sender_signal lib e)" for e
    by (cases e) (simp_all add: callback_defs bridge_defs)
  ultimately show ?thesis by (simp add: calls_map)
qed

text \<open>
  A program that uses \<open>NetTransfer\<close> without the bridge may leave callbacks unset: those of
  \<open>start\<close> are tested before they are called, but a sender gets no progress callback, and the first chunk
  it has written ends the program with an exception. With a progress callback no call of a sender fails.
\<close>

theorem progress_callback_needed:
  assumes "nc_onProgress nc0 = None" and "on_chunk_written env st None n = Inr (st', fx)"
  shows "(\<exists>x. calls (sender_call (send_callbacks nc0 nc)) fx = Inl x)
    \<and> (\<exists>out. calls (net_call nc0) es = Inr out)
    \<and> (\<exists>out. calls (sender_call (send_callbacks (setOnProgress f nc0) nc)) fx = Inr out)"
proof -
  obtain a b fx' where "fx = SProgress a b # fx'"
    using assms(2) by (auto simp: on_chunk_written_def run_simps Let_def)
  then have "\<exists>x. calls (sender_call (send_callbacks nc0 nc)) fx = Inl x"
    using assms(1) by (simp add: callback_defs)
  moreover have d: "\<exists>out. discovery_call (start_discovery_callbacks nc0) e = Inr out" for e
    by (cases e) (simp_all add: callback_defs)
  moreover have r: "\<exists>out. receiver_call (start_receiver_callbacks nc0) e = Inr out" for e
    by (cases e) (simp_all add: callback_defs)
  moreover have "\<exists>out. net_call nc0 e = Inr out" for e
    by (cases e) (simp_all add: d r)
  moreover have "\<exists>out. sender_call (send_callbacks (setOnProgress f nc0) nc) e = Inr out" for e
    by (cases e) (simp_all add: callback_defs setOnProgress_def)
  ultimately show ?thesis using calls_map by metis
qed

theorem progress_callback_needed_witness:
  "\<exists>st' fx. on_chunk_written sample_env (sample_sender\<lparr>ts_socket_open := True\<rparr>) None 25 = Inr (st', fx)
     \<and> (\<exists>x. calls (sender_call (send_callbacks (no_net_callbacks :: bridge_signal net_callbacks) no_net_callbacks)) fx = Inl x)"
proof -
  obtain st' fx where c: "on_chunk_written sample_env (sample_sender\<lparr>ts_socket_open := True\<rparr>) None 25 = Inr (st', fx)"
    by (simp add: on_chunk_written_def sendNextChunk_def next_block_def sync_write_def sample_env_def
        sample_sender_def newTransferSender_def)
  have n: "nc_onProgress (no_net_callbacks :: bridge_signal net_callbacks) = None" by (simp add: no_net_callbacks_def)
  from progress_callback_needed [OF n c] c show ?thesis by blast
qed

end
