(* ===== verification/Progress_Display.thy ===== *)
theory Progress_Display
  imports Main_Window
begin

text \<open>
  What the progress bar of the window shows: the percentage of one progress signal, the bar over a
  whole execution of a sender, and the progress signals of a receiver for which the conversion to
  \<open>int\<close> in \<open>MainWindow::onProgress\<close> is undefined.
\<close>

section \<open>One signal\<close>

text \<open>The percentage as the bar shows it.\<close>

definition shown :: "u64 \<Rightarrow> u64 \<Rightarrow> int" where
  "shown sent amount = \<lfloor>percent_value sent amount\<rfloor>"

lemma percent_value_bounds:
  assumes "0 < amount" and "sent \<le> amount"
  shows "0 \<le> percent_value sent amount" and "percent_value sent amount \<le> 100"
  using percent_value_mono [of 0 sent amount] percent_value_mono [OF assms(2,1)] assms(1)
  by (simp_all add: percent_value_0 percent_value_full)

lemma shown_bounds:
  assumes "0 < amount" and "sent \<le> amount"
  shows "0 \<le> shown sent amount" and "shown sent amount \<le> 100"
  using percent_value_bounds [OF assms] by (simp_all add: shown_def floor_le_iff)

lemma shown_mono: "sent \<le> sent' \<Longrightarrow> 0 < amount \<Longrightarrow> shown sent amount \<le> shown sent' amount"
  unfolding shown_def by (intro floor_mono percent_value_mono)

lemma shown_full: "0 < amount \<Longrightarrow> shown amount amount = 100"
  by (simp add: shown_def percent_value_full)

lemma shown_close:
  assumes "0 < amount" and "sent \<le> amount"
  shows "\<bar>of_int (shown sent amount) - 100 * rat_of sent / rat_of amount\<bar> < 3 / 2"
  using percent_value_close [OF assms] floor_bounds [of "percent_value sent amount"] unfolding shown_def by linarith

lemma onProgress_shown:
  assumes "0 < amount" and "sent \<le> amount"
  shows "onProgress sent amount mw = Inr (mw\<lparr>mw_progress_value := Some (shown sent amount)\<rparr>)"
  using shown_bounds [OF assms] by (simp add: onProgress_def percent_finite [OF assms(1)] setValue_def shown_def)

section \<open>The signals of a transfer\<close>

text \<open>The slots that run for the signals of a transfer, in the order of the queue.\<close>

fun deliver_transfer :: "bridge_signal list \<Rightarrow> MainWindow \<Rightarrow> MainWindow run" where
  "deliver_transfer [] mw = Inr mw"
| "deliver_transfer (ProgressUpdated sent amount # signals) mw =
     andThen (onProgress sent amount mw) (deliver_transfer signals)"
| "deliver_transfer (TransferComplete ok path # signals) mw =
     deliver_transfer signals (onTransferComplete ok path mw)"
| "deliver_transfer (_ # signals) mw = deliver_transfer signals mw"

definition sender_signals :: "qt_lib \<Rightarrow> sender_effect list \<Rightarrow> bridge_signal list" where
  "sender_signals lib fx = concat (map (sender_signal lib) fx)"

text \<open>The value of the bar after a list of progress reports.\<close>

fun bar :: "(u64 \<times> u64) list \<Rightarrow> int option \<Rightarrow> int option" where
  "bar [] v = v"
| "bar ((sent, amount) # ps) v = bar ps (Some (shown sent amount))"

lemma bar_last: "bar ps v = (if ps = [] then v else Some (shown (fst (last ps)) (snd (last ps))))"
  by (induction ps v rule: bar.induct) auto

lemma deliver_log:
  assumes "\<forall>(sent, amount) \<in> set (progress fx). 0 < amount \<and> sent \<le> amount"
  shows "\<exists>mw'. deliver_transfer (sender_signals lib fx) mw = Inr mw'
    \<and> mw_progress_value mw' = bar (progress fx) (mw_progress_value mw)
    \<and> (mw_progress_shown mw' \<longleftrightarrow> mw_progress_shown mw \<and> completions fx = [])"
  using assms
proof (induction fx arbitrary: mw)
  case Nil
  then show ?case by (simp add: sender_signals_def progress_def completions_def)
next
  case (Cons e fx)
  have IH: "\<exists>mw'. deliver_transfer (sender_signals lib fx) mw = Inr mw'
    \<and> mw_progress_value mw' = bar (progress fx) (mw_progress_value mw)
    \<and> (mw_progress_shown mw' \<longleftrightarrow> mw_progress_shown mw \<and> completions fx = [])" for mw
    using Cons by (auto simp: progress_def)
  show ?case
  proof (cases e)
    case (SProgress sent amount)
    with Cons.prems have "onProgress sent amount mw = Inr (mw\<lparr>mw_progress_value := Some (shown sent amount)\<rparr>)"
      by (intro onProgress_shown) (auto simp: progress_def)
    with SProgress IH [of "mw\<lparr>mw_progress_value := Some (shown sent amount)\<rparr>"] show ?thesis
      by (simp add: sender_signals_def progress_def completions_def)
  next
    case (SComplete ok path)
    with IH [of "onTransferComplete ok (qs_from lib []) mw"] show ?thesis
      by (simp add: sender_signals_def progress_def completions_def onTransferComplete_def append_log_def)
  qed (use IH [of mw] in \<open>simp_all add: sender_signals_def progress_def completions_def\<close>)
qed

lemma unat_length: "n \<le> length c \<Longrightarrow> length c < 2 ^ 64 \<Longrightarrow> unat (of_nat n :: u64) = n"
  by (simp add: unat_of_nat)

lemma progress_after_sound:
  assumes "length c < 2 ^ 64" and "c \<noteq> []"
  shows "0 < snd (progress_after c k)" and "fst (progress_after c k) \<le> snd (progress_after c k)"
  using assms unat_length [of _ c] by (simp_all add: progress_after_def word_less_nat_alt word_le_nat_alt)

lemma progress_after_all: "progress_after c (length (blocks CHUNK c)) = (of_nat (length c), of_nat (length c))"
  using length_blocks_mult [of CHUNK c] by (simp add: progress_after_def min_def)

lemma blocks_Nil [simp]: "blocks CHUNK c = [] \<longleftrightarrow> c = []"
  using less_length_blocks [of CHUNK 0 c] by auto

text \<open>More than 22 million times the announced size is more than \<open>int\<close> can hold as a percentage.\<close>

lemma percent_value_large:
  assumes "0 < amount" and "22000000 * unat amount \<le> unat sent"
  shows "2147483648 \<le> percent_value sent amount"
proof -
  define s t where "s = rat_of sent" and "t = rat_of amount"
  have big: "1 / 2 ^ 100 \<le> x" if "1 \<le> x" for x :: rat
    by (rule order_trans [OF _ that]) simp
  have t: "1 \<le> t" unfolding t_def by (rule rat_of_pos [OF assms(1)])
  have "of_nat (22000000 * unat amount) \<le> (of_nat (unat sent) :: rat)" unfolding of_nat_le_iff by (rule assms(2))
  then have s: "22000000 * t \<le> s" unfolding s_def t_def rat_of_def of_nat_mult by (simp only: of_nat_numeral)
  have "22000000 \<le> s / t" using s t by (simp add: pos_le_divide_eq)
  then have "22000000 * (999 / 1001) \<le> s / t * (999 / 1001)" by (rule mult_right_mono) simp
  also have "\<dots> \<le> to_double s / to_double t"
    using quotient_near(1) [of s t] to_double_near [OF big] s t by simp
  finally have q: "21900000 \<le> to_double s / to_double t" by linarith
  then have "to_double s / to_double t * (999 / 1000) \<le> to_double (to_double s / to_double t)"
    by (intro to_double_near big) simp
  with q have p: "21800000 \<le> to_double (to_double s / to_double t)" by simp
  then have "to_double (to_double s / to_double t) * 100 * (999 / 1000)
      \<le> to_double (to_double (to_double s / to_double t) * 100)"
    by (intro to_double_near big) simp
  with p show ?thesis by (simp add: percent_value_def s_def t_def)
qed

lemma onProgress_undefined:
  assumes "22000000 * unat amount \<le> unat sent"
  shows "onProgress sent amount mw = Inl BadConversion"
proof (cases "amount = 0")
  case True
  then show ?thesis by (simp add: onProgress_def percent_zero)
next
  case False
  then have a: "0 < amount" by (simp add: word_gt_0)
  have "2147483648 \<le> \<lfloor>percent_value sent amount\<rfloor>"
    using percent_value_large [OF a assms] by (simp add: le_floor_iff)
  then show ?thesis by (simp add: onProgress_def percent_finite [OF a])
qed

section \<open>Properties\<close>

text \<open>
  C36. The bar shows the progress. For a transfer of at least one byte, and as long as not more was sent
  than the file has, the slot succeeds and sets the bar to a value between 0 and 100 that is less
  than one and a half away from the exact percentage; the value never falls as more is sent, and
  it is 100 when everything was sent. Nothing else in the window changes.
\<close>

theorem progress_shown:
  assumes "0 < amount" and "sent \<le> sent'" and "sent' \<le> amount"
  shows "\<exists>v v'. onProgress sent amount mw = Inr (mw\<lparr>mw_progress_value := Some v\<rparr>)
    \<and> onProgress sent' amount mw' = Inr (mw'\<lparr>mw_progress_value := Some v'\<rparr>)
    \<and> 0 \<le> v \<and> v \<le> v' \<and> v' \<le> 100
    \<and> \<bar>of_int v - 100 * rat_of sent / rat_of amount\<bar> < 3 / 2
    \<and> (sent' = amount \<longrightarrow> v' = 100)"
proof (intro exI conjI)
  have "sent \<le> amount" using assms(2,3) by simp
  then show "onProgress sent amount mw = Inr (mw\<lparr>mw_progress_value := Some (shown sent amount)\<rparr>)"
    "0 \<le> shown sent amount" "\<bar>of_int (shown sent amount) - 100 * rat_of sent / rat_of amount\<bar> < 3 / 2"
    using assms(1) onProgress_shown shown_bounds(1) shown_close by blast+
  show "onProgress sent' amount mw' = Inr (mw'\<lparr>mw_progress_value := Some (shown sent' amount)\<rparr>)"
    "shown sent' amount \<le> 100" "sent' = amount \<longrightarrow> shown sent' amount = 100"
    using assms(1,3) by (simp_all add: onProgress_shown shown_bounds shown_full)
  show "shown sent amount \<le> shown sent' amount" by (rule shown_mono [OF assms(2,1)])
qed

theorem progress_shown_witness:
  "\<exists>v. onProgress 3 3 (empty_window fresh_net) = Inr ((empty_window fresh_net)\<lparr>mw_progress_value := Some v\<rparr>) \<and> v = 100"
  using progress_shown [of 3 1 3 "empty_window fresh_net" "empty_window fresh_net"] by auto

text \<open>
  C37. Over a whole transfer. In every execution of a started sender, against any peer and any
  errors, handling all signals queued so far never converts a number that does not fit, the bar stays
  between 0 and 100, it is hidden as soon as the end of the transfer was reported, and when success
  was reported for a file that is not empty it stands at 100.
\<close>

theorem sending_shown:
  assumes "evp_sha256 evp sha" and "se_file env path = Some c" and "length garbage = MAX_BUFFER_SIZE"
    and "startSender evp env (newTransferSender ip port path name sid garbage gsha gsize)
      = Inr (True, st0, fx)"
    and "sender_step\<^sup>*\<^sup>* (perform fx \<lparr>ss_state = st0, ss_ops = [], ss_log = []\<rparr>) s"
    and "length c < 2 ^ 64" and "mw_progress_value mw = Some 0" and "mw_progress_shown mw"
  shows "\<exists>mw' v. deliver_transfer (sender_signals lib (ss_log s)) mw = Inr mw'
    \<and> mw_progress_value mw' = Some v \<and> 0 \<le> v \<and> v \<le> 100
    \<and> (mw_progress_shown mw' \<longleftrightarrow> completions (ss_log s) = [])
    \<and> (c \<noteq> [] \<and> (True, p) \<in> set (completions (ss_log s)) \<longrightarrow> v = 100)"
proof -
  obtain k where k: "k \<le> length (blocks CHUNK c)" "progress (ss_log s) = map (progress_after c) [1..<Suc k]"
    "(True, p) \<in> set (completions (ss_log s)) \<Longrightarrow> k = length (blocks CHUNK c)"
    using sender_inv_progress [OF sender_started(2) [OF assms(1-5)]] by metis
  have ne: "c \<noteq> []" if "k \<noteq> 0" using that k(1) by (metis blocks_Nil le_zero_eq list.size(3))
  have "\<forall>(sent, amount) \<in> set (progress (ss_log s)). 0 < amount \<and> sent \<le> amount"
    using progress_after_sound [OF assms(6)] ne by (auto simp: k(2) simp del: upt_Suc) (metis fst_conv snd_conv)+
  then obtain mw' where mw': "deliver_transfer (sender_signals lib (ss_log s)) mw = Inr mw'"
    "mw_progress_value mw' = bar (progress (ss_log s)) (Some 0)"
    "mw_progress_shown mw' \<longleftrightarrow> completions (ss_log s) = []"
    using deliver_log [of "ss_log s" lib mw] assms(7,8) by auto
  let ?v = "if k = 0 then 0 else shown (fst (progress_after c k)) (snd (progress_after c k))"
  have "mw_progress_value mw' = Some ?v" by (simp add: mw'(2) bar_last k(2))
  moreover have "0 \<le> ?v" "?v \<le> 100" using shown_bounds progress_after_sound [OF assms(6)] ne by auto
  moreover have "?v = 100" if "c \<noteq> []" "(True, p) \<in> set (completions (ss_log s))"
    using k(3) [OF that(2)] that(1) progress_after_sound(1) [OF assms(6), of "length (blocks CHUNK c)"]
    by (simp add: progress_after_all shown_full)
  ultimately show ?thesis using mw'(1,3) by blast
qed

theorem sending_shown_witness:
  "\<exists>st0 fx mw'. startSender pad_evp sample_env sample_sender = Inr (True, st0, fx)
     \<and> deliver_transfer (sender_signals sample_qt (ss_log (perform fx \<lparr>ss_state = st0, ss_ops = [], ss_log = []\<rparr>)))
         (setValue 0 ((empty_window fresh_net)\<lparr>mw_progress_shown := True\<rparr>)) = Inr mw' \<and> mw_progress_shown mw'"
proof -
  let ?mw = "setValue 0 ((empty_window fresh_net)\<lparr>mw_progress_shown := True\<rparr>)"
  let ?st = "sample_sender\<lparr>ts_file_size := 3, ts_sha256 := pad32 [1, 2, 3],
    ts_file := Some (open_in [1, 2, 3]), ts_socket_open := True\<rparr>"
  let ?s = "perform [SStart (ConnectTo [49] 50001)] \<lparr>ss_state = ?st, ss_ops = [], ss_log = []\<rparr>"
  have "se_file sample_env [47, 97] = Some [1, 2, 3]" "length (replicate MAX_BUFFER_SIZE 0) = MAX_BUFFER_SIZE"
    "length [1, 2, 3 :: u8] < 2 ^ 64" "mw_progress_value ?mw = Some 0" "mw_progress_shown ?mw"
    by (simp_all add: sample_env_def setValue_def)
  then obtain mw' where "deliver_transfer (sender_signals sample_qt (ss_log ?s)) ?mw = Inr mw'"
    "mw_progress_shown mw' \<longleftrightarrow> completions (ss_log ?s) = []"
    using sending_shown [OF pad_evp_sha256 _ _ sample_started [unfolded sample_sender_def]
        rtranclp.rtrancl_refl, of "[1, 2, 3]" ?mw sample_qt]
    unfolding sample_sender_def by metis
  with sample_started show ?thesis by (fastforce simp: perform_def completions_def)
qed

text \<open>
  C38. The receiving side has no such guarantee: the size is the peer's claim and the counter goes on from
  the transfers before. A chunk that brings the counter to 22 million times the announced size, or
  any chunk at all when the announced size is 0, makes the window convert a number that \<open>int\<close> cannot
  hold, which is undefined.
\<close>

theorem receiving_undefined:
  assumes "22000000 * unat (tr_file_size st) \<le> unat (tr_bytes_sent st + of_nat n)"
    and "on_chunk_body env st disk None n = Inr (st', disk', fx)"
  shows "deliver_transfer (concat (map (net_signal lib \<circ> NReceiver) fx)) mw = Inl BadConversion"
proof -
  have "fx = RProgress (tr_bytes_sent st + of_nat n) (tr_file_size st) # receiveNextChunk"
    using assms(2) by (auto simp: on_chunk_body_def write_out_def split: option.splits bool.splits prod.splits)
  then show ?thesis by (simp add: onProgress_undefined [OF assms(1)])
qed

theorem receiving_undefined_witness:
  "\<exists>st' disk' fx. on_chunk_body sample_renv
       ((newTransferReceiver 50001 0 3 (replicate MAX_BUFFER_SIZE 0))\<lparr>tr_bytes_sent := 66000000\<rparr>) Map.empty None 1
       = Inr (st', disk', fx)
     \<and> deliver_transfer (concat (map (net_signal sample_qt \<circ> NReceiver) fx)) (empty_window fresh_net) = Inl BadConversion"
proof -
  let ?st = "(newTransferReceiver 50001 0 3 (replicate MAX_BUFFER_SIZE 0))\<lparr>tr_bytes_sent := 66000000\<rparr>"
  obtain st' disk' fx where c: "on_chunk_body sample_renv ?st Map.empty None 1 = Inr (st', disk', fx)"
    by (simp add: on_chunk_body_def write_out_def newTransferReceiver_def)
  have "22000000 * unat (tr_file_size ?st) \<le> unat (tr_bytes_sent ?st + of_nat 1)"
    by (simp add: newTransferReceiver_def)
  from receiving_undefined [OF this c] c show ?thesis by blast
qed

end
