(* ===== verification/Command_Line.thy ===== *)
theory Command_Line
  imports Net_Core Doubles
begin

text \<open>
  The program of \<open>src/src/main.cpp\<close>: its callbacks and its command loop. What happens while the program
  waits for a line is a list of events: lines the user enters, changes the io thread makes to
  \<open>NetTransfer\<close>, and effects of the services or of a sender at some time (in milliseconds), whose
  callbacks run on the io thread and print too. The firewall rules of the Windows build are in the theory on the
  Windows setup.
\<close>

section \<open>Output and callbacks\<close>

record cli =
  cli_net :: NetTransfer
  cli_pending_offer_flag :: bool
  cli_pending_offer_data :: "OfferPayload option"  \<comment> \<open>written, never read\<close>
  cli_last_print :: "nat option"  \<comment> \<open>\<open>None\<close>: the static variable is not initialised yet\<close>
  cli_out :: bytes

definition cout :: "bytes \<Rightarrow> cli \<Rightarrow> cli" where
  "cout text c = c\<lparr>cli_out := cli_out c @ text\<rparr>"

definition endl :: bytes where "endl = [10]"

definition cli_onDeviceFound :: "DiscoveredDevice \<Rightarrow> cli \<Rightarrow> cli" where
  "cli_onDeviceFound d = cout (ascii ''device found: '' @ dd_name d @ ascii '' ('' @ dd_ip d @ ascii '')'' @ endl)"

definition cli_onOffer :: "OfferPayload \<Rightarrow> cli \<Rightarrow> cli" where
  "cli_onOffer offer c =
     cout (endl @ ascii ''incoming file: '' @ op_file_name offer @ ascii '' ('' @ to_string (unat (op_file_size offer))
         @ ascii '' bytes)'' @ endl @ ascii ''type 'y' or 'n' to accept/reject'' @ endl)
       (c\<lparr>cli_pending_offer_data := Some offer, cli_pending_offer_flag := True\<rparr>)"

text \<open>\<open>std::fixed << std::setprecision(1)\<close>; the sign that a NaN may show is left out.\<close>

fun fixed1 :: "double \<Rightarrow> bytes" where
  "fixed1 (Finite x) = (let n = nat (round_half_even (x * 10)) in to_string (n div 10) @ ascii ''.'' @ to_string (n mod 10))"
| "fixed1 Infinity = ascii ''inf''"
| "fixed1 NaN = ascii ''nan''"

text \<open>The static variable gets the time of the first call.\<close>

definition cli_onProgress :: "nat \<Rightarrow> u64 \<Rightarrow> u64 \<Rightarrow> cli \<Rightarrow> cli" where
  "cli_onProgress now sent amount c =
     (let last_print = (case cli_last_print c of None \<Rightarrow> now | Some t \<Rightarrow> t);
          c = c\<lparr>cli_last_print := Some last_print\<rparr>
      in if now - last_print < 100 then c
         else cout ([13] @ ascii ''progress: '' @ to_string (unat sent) @ ascii ''/'' @ to_string (unat amount)
                @ ascii '' ('' @ fixed1 (percent sent amount) @ ascii ''%)'')
              (c\<lparr>cli_last_print := Some now\<rparr>))"

definition cli_onComplete :: "bool \<Rightarrow> cli \<Rightarrow> cli" where
  "cli_onComplete ok =
     cout ((if ok then [13] @ ascii ''progress: 100.0%                      '' @ endl else [])
       @ endl @ (if ok then ascii ''transfer complete'' else ascii ''transfer failed'') @ endl)"

definition cli_onNewDevice :: "bytes \<Rightarrow> bytes \<Rightarrow> cli \<Rightarrow> cli" where
  "cli_onNewDevice fingerprint name =
     cout (endl @ ascii ''New device tried to connect, but was rejected because it is untrusted:'' @ endl
       @ ascii ''  Name:        '' @ name @ endl @ ascii ''  Fingerprint: '' @ fingerprint @ endl
       @ ascii ''Type 't' to trust them (they will need to send the file again), or 'i' to ignore.'' @ endl)"

text \<open>The callback for each effect; a device that leaves has none.\<close>

fun cli_callback :: "nat \<Rightarrow> net_effect \<Rightarrow> cli \<Rightarrow> cli" where
  "cli_callback now (NDiscovery (OnDeviceFound d)) c = cli_onDeviceFound d c"
| "cli_callback now (NReceiver (ROffer offer)) c = cli_onOffer offer c"
| "cli_callback now (NReceiver (RProgress sent amount)) c = cli_onProgress now sent amount c"
| "cli_callback now (NReceiver (RComplete ok path)) c = cli_onComplete ok c"
| "cli_callback now (NNewDevice fingerprint name) c = cli_onNewDevice fingerprint name c"
| "cli_callback now _ c = c"

fun cli_sender_callback :: "nat \<Rightarrow> sender_effect \<Rightarrow> cli \<Rightarrow> cli" where
  "cli_sender_callback now (SProgress sent amount) c = cli_onProgress now sent amount c"
| "cli_sender_callback now (SComplete ok path) c = cli_onComplete ok c"
| "cli_sender_callback now _ c = c"

section \<open>Input\<close>

datatype cli_event =
    Line bytes
  | Io "NetTransfer \<Rightarrow> NetTransfer"
  | Callback nat net_effect
  | SenderCallback nat sender_effect

text \<open>\<open>std::getline\<close>: at the end of the input the line stays empty.\<close>

fun getline :: "cli_event list \<Rightarrow> cli \<Rightarrow> bytes \<times> cli_event list \<times> cli" where
  "getline [] c = ([], [], c)"
| "getline (Line line # es) c = (line, es, c)"
| "getline (Io f # es) c = getline es (c\<lparr>cli_net := f (cli_net c)\<rparr>)"
| "getline (Callback now e # es) c = getline es (cli_callback now e c)"
| "getline (SenderCallback now e # es) c = getline es (cli_sender_callback now e c)"

text \<open>\<open>std::stoi\<close>: blanks, a sign, digits; anything may follow. It throws without digits and outside \<open>int\<close>.\<close>

definition is_space :: "u8 \<Rightarrow> bool" where
  "is_space b \<longleftrightarrow> b = 32 \<or> 9 \<le> b \<and> b \<le> 13"

definition is_digit :: "u8 \<Rightarrow> bool" where
  "is_digit b \<longleftrightarrow> 48 \<le> b \<and> b \<le> 57"

fun split_sign :: "bytes \<Rightarrow> bool \<times> bytes" where
  "split_sign (c # cs) = (if c = 45 then (True, cs) else if c = 43 then (False, cs) else (False, c # cs))"
| "split_sign [] = (False, [])"

definition stoi :: "bytes \<Rightarrow> int run" where
  "stoi s =
     (let (negative, s) = split_sign (dropWhile is_space s);
          digits = takeWhile is_digit s;
          v = int (read_decimal 0 digits);
          v = (if negative then - v else v)
      in if digits = [] \<or> v < - 2147483648 \<or> 2147483647 < v then Inl Uncaught else Inr v)"

section \<open>The loop\<close>

definition PROMPT :: bytes where
  "PROMPT = ascii ''select option: (l) list, (s) send file, (q) quit: '' @ endl"

definition device_line :: "DiscoveredDevice \<Rightarrow> bytes" where
  "device_line d = dd_name d @ ascii '' - '' @ dd_ip d @ ascii '':'' @ to_string (unat (dd_tcp_port d)) @ endl"

definition numbered_line :: "nat \<times> DiscoveredDevice \<Rightarrow> bytes" where
  "numbered_line = (\<lambda>(i, d). to_string i @ ascii '': '' @ device_line d)"

definition cli_send ::
  "garbage \<Rightarrow> DiscoveredDevice list \<Rightarrow> cli_event list \<Rightarrow> cli \<Rightarrow> (cli_event list \<times> cli \<times> net_effect list) run" where
  "cli_send ga devices es c =
     (let c = cout (concat (map numbered_line (enumerate 0 devices)) @ ascii ''select device: '') c;
          (choice_str, es, c) = getline es c in
      andThen (stoi choice_str) (\<lambda>choice.
      if choice < 0 \<or> int (length devices) \<le> choice then Inr (es, cout (ascii ''invalid choice'' @ endl) c, [])
      else
        let (file_path, es, c) = getline es (cout (ascii ''file path: '') c);
            (_, nt, fx) = sendFile ga (devices ! nat choice) file_path (cli_net c)
        in Inr (es, c\<lparr>cli_net := nt\<rparr>, fx)))"

text \<open>One command; the flag of the result says whether the loop is left.\<close>

definition cli_command ::
  "net_env \<Rightarrow> garbage \<Rightarrow> disk \<Rightarrow> u8 \<Rightarrow> cli_event list \<Rightarrow> cli
     \<Rightarrow> disk \<times> (bool \<times> cli_event list \<times> cli \<times> net_effect list) run" where
  "cli_command env ga disk input es c =
     (if input = of_char (CHR ''l'') then
        (disk, andThen (getNetDevices (cli_net c)) (\<lambda>devices.
           Inr (False, es, cout (concat (map device_line devices)) c, [])))
      else if input = of_char (CHR ''s'') then
        (disk, andThen (getNetDevices (cli_net c)) (\<lambda>devices.
           if devices = [] then Inr (False, es, cout (ascii ''no devices found'' @ endl) c, [])
           else andThen (cli_send ga devices es c) (\<lambda>(es, c, fx). Inr (False, es, c, fx))))
      else if input = of_char (CHR ''q'') then
        (disk, andThen (stopNet env (cli_net c)) (\<lambda>(_, nt, fx).
           Inr (True, es, cout (ascii ''bye, see ya'' @ endl) (c\<lparr>cli_net := nt\<rparr>), fx)))
      else if input = of_char (CHR ''y'') \<and> cli_pending_offer_flag c then
        (disk, andThen (acceptOffer (cli_net c)) (\<lambda>fx. Inr (False, es, c\<lparr>cli_pending_offer_flag := False\<rparr>, fx)))
      else if input = of_char (CHR ''n'') \<and> cli_pending_offer_flag c then
        (disk, andThen (rejectOffer (cli_net c) USER_DECLINED) (\<lambda>fx.
           Inr (False, es, c\<lparr>cli_pending_offer_flag := False\<rparr>, fx)))
      else if input = of_char (CHR ''t'') \<and> hasPendingTrust (cli_net c) then
        (case trustDevice (ne_json env) (ne_writable env) disk (cli_net c) of
           (disk, r) \<Rightarrow> (disk, andThen r (\<lambda>nt.
             Inr (False, es, cout (ascii ''Device trusted. They can now send you files.'' @ endl) (c\<lparr>cli_net := nt\<rparr>), []))))
      else if input = of_char (CHR ''i'') \<and> hasPendingTrust (cli_net c) then
        (disk, Inr (False, es,
           cout (ascii ''Device ignored.'' @ endl) (c\<lparr>cli_net := ignorePendingTrust (cli_net c)\<rparr>), []))
      else (disk, Inr (False, es, c, [])))"

lemma getline_shortens:
  "getline es c = (line, es', c') \<Longrightarrow> length es' \<le> length es \<and> (es \<noteq> [] \<longrightarrow> length es' < length es)"
  by (induction es c rule: getline.induct) (fastforce dest: le_imp_less_Suc)+

lemma cli_send_shortens:
  assumes "cli_send ga devices es c = Inr (es', c', fx)"
  shows "length es' \<le> length es"
  using assms
  by (auto simp: cli_send_def run_simps Let_def split: prod.splits if_splits dest!: getline_shortens)

lemma cli_command_shortens:
  assumes "cli_command env ga disk input es c = (disk', Inr (quit, es', c', fx))"
  shows "length es' \<le> length es"
  using assms
  by (auto simp: cli_command_def run_simps split: if_splits prod.splits dest: cli_send_shortens)

text \<open>
  The loop. When no event is left the input has ended: every further \<open>getline\<close> gives an empty line
  and the loop goes round for ever.
\<close>

function cli_loop ::
  "net_env \<Rightarrow> garbage \<Rightarrow> disk \<Rightarrow> cli_event list \<Rightarrow> cli \<Rightarrow> disk \<times> (cli \<times> net_effect list) run" where
  "cli_loop env ga disk es c =
     (if es = [] then (disk, Inl Diverges)
      else
        case getline es (cout PROMPT c) of
          (line, es, c) \<Rightarrow>
            (case line of
               [] \<Rightarrow> cli_loop env ga disk es c
             | input # _ \<Rightarrow>
                 (case cli_command env ga disk input es c of
                    (disk, Inl e) \<Rightarrow> (disk, Inl e)
                  | (disk, Inr (quit, es, c, fx)) \<Rightarrow>
                      if quit then (disk, Inr (c, fx))
                      else
                        (case cli_loop env ga disk es c of
                           (disk, Inl e) \<Rightarrow> (disk, Inl e)
                         | (disk, Inr (c, fx')) \<Rightarrow> (disk, Inr (c, fx @ fx'))))))"
  by pat_completeness auto
termination
  by (relation "measure (\<lambda>(env, ga, disk, es, c). length es)")
    (auto dest!: getline_shortens [OF sym] cli_command_shortens [OF sym])

declare cli_loop.simps [simp del]

text \<open>
  \<open>main\<close>, with the exit code. Leaving \<open>main\<close> destroys \<open>net\<close>, which ends the io thread when \<open>stop\<close> returned
  before it did. The function set with \<open>setOnFirstRun\<close> is never called.
\<close>

definition cli_main ::
  "net_env \<Rightarrow> garbage \<Rightarrow> disk \<Rightarrow> cli_event list \<Rightarrow> disk \<times> (int \<times> cli \<times> net_effect list) run" where
  "cli_main env ga disk es =
     (case newNetTransfer env disk of
        Inl e \<Rightarrow> (disk, Inl e)
      | Inr nt \<Rightarrow>
          (case startNet env ga disk nt of
             (disk, Inl e) \<Rightarrow> (disk, Inl e)
           | (disk, Inr (fine, nt, fx)) \<Rightarrow>
               let c = \<lparr>cli_net = nt, cli_pending_offer_flag = False, cli_pending_offer_data = None,
                        cli_last_print = None, cli_out = []\<rparr>
               in if \<not> fine
                  then (disk, Inr (-1, cout (ascii ''error at start, exiting'') (c\<lparr>cli_net := destroyNet nt\<rparr>), fx))
                  else
                    (case cli_loop env ga disk es c of
                       (disk, Inl e) \<Rightarrow> (disk, Inl e)
                     | (disk, Inr (c, fx')) \<Rightarrow> (disk, Inr (0, c\<lparr>cli_net := destroyNet (cli_net c)\<rparr>, fx @ fx')))))"

section \<open>Numbers\<close>

lemma digit_is_digit: "d < 10 \<Longrightarrow> is_digit (of_nat (48 + d))"
  using unat_digit [of d] by (simp add: is_digit_def word_le_nat_alt del: of_nat_add)

lemma to_string_digits: "to_string n \<noteq> [] \<and> (\<forall>b \<in> set (to_string n). is_digit b)"
proof (induction n rule: to_string.induct)
  case (1 n)
  then show ?case
    using digit_is_digit [of n] digit_is_digit [of "n mod 10"]
    by (subst (1 2) to_string.simps) (auto simp del: of_nat_add)
qed

lemma digit_plain: "is_digit b \<Longrightarrow> \<not> is_space b \<and> b \<noteq> 45 \<and> b \<noteq> 43"
  by (auto simp: is_digit_def is_space_def word_le_nat_alt)

lemma stoi_to_string:
  assumes "n \<le> 2147483647"
  shows "stoi (to_string n) = Inr (int n)"
proof -
  have d: "\<forall>x \<in> set (to_string n). is_digit x" and ne: "to_string n \<noteq> []" using to_string_digits by auto
  have "split_sign (dropWhile is_space (to_string n)) = (False, to_string n)"
  proof (cases "to_string n")
    case (Cons b bs)
    with d digit_plain [of b] show ?thesis by simp
  qed (use ne in simp)
  moreover have tw: "takeWhile is_digit (to_string n) = to_string n" using d by simp
  ultimately show ?thesis using assms ne by (simp add: stoi_def Let_def tw)
qed

lemma stoi_minus:
  assumes "n \<le> 2147483647"
  shows "stoi (45 # to_string n) = Inr (- int n)"
proof -
  have d: "\<forall>x \<in> set (to_string n). is_digit x" and ne: "to_string n \<noteq> []" using to_string_digits by auto
  have "split_sign (dropWhile is_space (45 # to_string n)) = (True, to_string n)" by (simp add: is_space_def)
  moreover have tw: "takeWhile is_digit (to_string n) = to_string n" using d by simp
  ultimately show ?thesis using assms ne by (simp add: stoi_def Let_def tw)
qed

lemma split_sign_set: "set (snd (split_sign s)) \<subseteq> set s"
  by (cases s) auto

lemma stoi_no_number:
  assumes "\<forall>b \<in> set s. \<not> is_digit b"
  shows "stoi s = Inl Uncaught"
proof -
  let ?t = "snd (split_sign (dropWhile is_space s))"
  have "set ?t \<subseteq> set s" using split_sign_set [of "dropWhile is_space s"] set_dropWhileD by fastforce
  then have "takeWhile is_digit ?t = []" using assms by (cases ?t) auto
  then show ?thesis by (simp add: stoi_def split_beta)
qed

section \<open>The end of the loop\<close>

lemma cli_command_quits:
  "cli_command env ga disk input es c = (disk', Inr (True, es', c', fx)) \<Longrightarrow> input = of_char (CHR ''q'')"
  by (auto simp: cli_command_def run_simps split: if_splits prod.splits)

lemma getline_line:
  "getline es c = (line, es', c') \<Longrightarrow> set es' \<subseteq> set es \<and> (line \<noteq> [] \<longrightarrow> Line line \<in> set es)"
  by (induction es c rule: getline.induct) auto

lemma cli_send_suffix: "cli_send ga devices es c = Inr (es', c', fx) \<Longrightarrow> set es' \<subseteq> set es"
  by (auto simp: cli_send_def run_simps Let_def split: prod.splits if_splits dest!: getline_line)

lemma cli_command_suffix:
  "cli_command env ga disk input es c = (disk', Inr (quit, es', c', fx)) \<Longrightarrow> set es' \<subseteq> set es"
  by (auto simp: cli_command_def run_simps split: if_splits prod.splits dest: cli_send_suffix)

lemma cli_needs_quit:
  assumes "\<forall>line. Line line \<in> set es \<longrightarrow> line = [] \<or> hd line \<noteq> of_char (CHR ''q'')"
  shows "\<exists>disk' e. cli_loop env ga disk es c = (disk', Inl e)"
  using assms
proof (induction env ga disk es c rule: cli_loop.induct)
  case (1 env ga disk es c)
  show ?case
  proof (cases "es = []")
    case False
    obtain line es1 c1 where g: "getline es (cout PROMPT c) = (line, es1, c1)" by (metis prod_cases3)
    have sub: "set es1 \<subseteq> set es" using getline_line [OF g] by simp
    show ?thesis
    proof (cases line)
      case Nil
      with 1(1) [OF False g [symmetric] refl] 1(3) sub g False show ?thesis by (subst cli_loop.simps) auto
    next
      case (Cons input rest)
      obtain disk1 r where c: "cli_command env ga disk input es1 c1 = (disk1, r)" by fastforce
      show ?thesis
      proof (cases r)
        case (Inl e)
        with c g Cons False show ?thesis by (subst cli_loop.simps) simp
      next
        case (Inr x)
        obtain quit es2 c2 fx where x: "x = (quit, es2, c2, fx)" by (metis prod_cases4)
        have "\<not> quit" using cli_command_quits [of env ga disk input es1 c1] c Inr x getline_line [OF g] Cons 1(3) by fastforce
        have "set es2 \<subseteq> set es" using cli_command_suffix [of env ga disk input es1 c1] c Inr x sub by blast
        then have no_q: "\<forall>line. Line line \<in> set es2 \<longrightarrow> line = [] \<or> hd line \<noteq> of_char (CHR ''q'')" using 1(3) by blast
        obtain disk' e where "cli_loop env ga disk1 es2 c2 = (disk', Inl e)"
          using 1(2) [OF False g [symmetric] refl Cons c [symmetric] Inr x [symmetric] refl refl \<open>\<not> quit\<close> no_q] by blast
        with c g Cons False Inr x \<open>\<not> quit\<close> show ?thesis by (subst cli_loop.simps) simp
      qed
    qed
  qed (simp add: cli_loop.simps)
qed

section \<open>Sending a file\<close>

text \<open>After a progress line the next one is at least a tenth of a second away.\<close>

lemma cli_progress_throttled:
  assumes "cli_out (cli_onProgress now sent amount c) \<noteq> cli_out c" and "now' < now + 100"
  shows "cli_out (cli_onProgress now' sent' amount' (cli_onProgress now sent amount c))
    = cli_out (cli_onProgress now sent amount c)"
  using assms by (auto simp: cli_onProgress_def cout_def Let_def split: if_splits)

lemma cout_simps [simp]: "cli_net (cout text c) = cli_net c" "cli_out (cout text c) = cli_out c @ text"
  "cli_pending_offer_flag (cout text c) = cli_pending_offer_flag c"
  by (simp_all add: cout_def)

definition menu :: "DiscoveredDevice list \<Rightarrow> bytes" where
  "menu devices = concat (map numbered_line (enumerate 0 devices))"

lemma menu_line:
  assumes "n < length devices"
  shows "sublist (numbered_line (n, devices ! n)) (menu devices)"
proof -
  let ?xs = "map numbered_line (enumerate 0 devices)"
  have "?xs ! n = numbered_line (n, devices ! n)" using assms by (simp add: nth_enumerate_eq)
  moreover have "concat ?xs = concat (take n ?xs) @ ?xs ! n @ concat (drop (Suc n) ?xs)"
    using assms id_take_nth_drop [of n ?xs] by (metis concat.simps(2) concat_append length_enumerate length_map)
  ultimately show ?thesis unfolding menu_def sublist_def by metis
qed

text \<open>
  C33. The dialogue of the command \<open>s\<close>. Against a table of devices the program prints a numbered line for
  each of them; the number of a device followed by a path creates the sender for the address and port
  of just the device printed beside that number, with that path, and posts its start. A number beyond
  the table or a negative one sends nothing, and the line after it is read as the next command. A line without a
  digit ends the program with an uncaught exception. An empty table asks nothing.
\<close>

theorem cli_number_selects:
  assumes "getNetDevices (cli_net c) = Inr devices" and "n \<le> 2147483647"
    and "\<forall>b \<in> set junk. \<not> is_digit b"
  shows "(n < length devices \<longrightarrow> (\<exists>c'.
      cli_command env ga disk (of_char (CHR ''s'')) (Line (to_string n) # Line path # es) c
        = (disk, Inr (False, es, c', [NPostStartSender]))
      \<and> cli_net c' = fst (snd (sendFile ga (devices ! n) path (cli_net c)))
      \<and> cli_out c' = cli_out c @ menu devices @ ascii ''select device: '' @ ascii ''file path: ''
      \<and> sublist (to_string n @ ascii '': '' @ dd_name (devices ! n) @ ascii '' - '' @ dd_ip (devices ! n)
          @ ascii '':'' @ to_string (unat (dd_tcp_port (devices ! n))) @ [10]) (menu devices)))
    \<and> (length devices \<le> n \<and> devices \<noteq> [] \<longrightarrow> (\<exists>c'.
      cli_command env ga disk (of_char (CHR ''s'')) (Line (to_string n) # es) c = (disk, Inr (False, es, c', []))
      \<and> cli_net c' = cli_net c))
    \<and> (0 < n \<and> devices \<noteq> [] \<longrightarrow> (\<exists>c'.
      cli_command env ga disk (of_char (CHR ''s'')) (Line (45 # to_string n) # es) c = (disk, Inr (False, es, c', []))
      \<and> cli_net c' = cli_net c))
    \<and> (devices \<noteq> [] \<longrightarrow>
      cli_command env ga disk (of_char (CHR ''s'')) (Line junk # es) c = (disk, Inl Uncaught))
    \<and> (devices = [] \<longrightarrow> cli_command env ga disk (of_char (CHR ''s'')) es c
      = (disk, Inr (False, es, cout (ascii ''no devices found'' @ endl) c, [])))"
  using assms(1) stoi_to_string [OF assms(2)] stoi_minus [OF assms(2)] stoi_no_number [OF assms(3)]
    menu_line [of n devices, unfolded numbered_line_def device_line_def endl_def prod.case]
  by (auto simp: cli_command_def cli_send_def run_simps sendFile_def menu_def [symmetric])

definition two_devices :: cli where
  "two_devices = \<lparr>cli_net = fresh_net\<lparr>nt_discovery := Some ((newDiscoveryService [65] 50001 [])
       \<lparr>ds_discoveredDevices := [\<lparr>dd_name = [66], dd_ip = [49], dd_tcp_port = 50002, dd_last_seen = 0\<rparr>,
          \<lparr>dd_name = [67], dd_ip = [50], dd_tcp_port = 50003, dd_last_seen = 0\<rparr>]\<rparr>)\<rparr>,
     cli_pending_offer_flag = False, cli_pending_offer_data = None, cli_last_print = None, cli_out = []\<rparr>"

theorem cli_number_selects_witness:
  "\<exists>c' s. cli_command sample_net_env sample_garbage Map.empty (of_char (CHR ''s''))
       [Line [49], Line [47, 120], Line [113]] two_devices
       = (Map.empty, Inr (False, [Line [113]], c', [NPostStartSender]))
     \<and> nt_active_sender (cli_net c') = Some s \<and> ts_target_ip s = [50] \<and> ts_target_port s = 50003"
proof -
  have d: "getNetDevices (cli_net two_devices) = Inr (ds_discoveredDevices (the (nt_discovery (cli_net two_devices))))"
    by (simp add: two_devices_def getNetDevices_def getDevices_def)
  have "to_string 1 = [49]" by (simp add: to_string.simps)
  with cli_number_selects [OF d, of 1 "[]" sample_net_env sample_garbage Map.empty "[47, 120]" "[Line [113]]"]
  show ?thesis by (auto simp: two_devices_def sendFile_def newTransferSender_def)
qed

end
