(* ===== verification/Windows_Setup.thy ===== *)
theory Windows_Setup
  imports Receiver_System Net_Store
begin

text \<open>
  The parts of the Windows build around the program itself: the firewall rules that the graphical
  program (\<open>src/src/main_gui.cpp\<close>) and the command line program (\<open>src/src/main.cpp\<close>) add before they
  start, the program that removes them (\<open>src/src/uninstall_rules.cpp\<close>) and the launcher
  (\<open>src/src/launcher.cpp\<close>). The state of the machine is a type variable; running \<open>netsh\<close>, the test
  for administrator rights and the relaunch are the parameter \<open>windows\<close>. What is documented of
  \<open>netsh advfirewall\<close> for the commands used here is the predicate \<open>netsh_laws\<close>.
\<close>

section \<open>The system\<close>

record 'w windows =
  wi_execute :: "bool \<Rightarrow> bytes \<Rightarrow> 'w \<Rightarrow> int option \<times> 'w"
    \<comment> \<open>\<open>ShellExecuteExW\<close> of \<open>netsh\<close>, with or without the verb \<open>runas\<close>, and the wait for its end;
      \<open>None\<close>: the process could not be started\<close>
  wi_system :: "bytes \<Rightarrow> 'w \<Rightarrow> int \<times> 'w"  \<comment> \<open>\<open>system\<close>\<close>
  wi_admin :: "'w \<Rightarrow> bool"  \<comment> \<open>\<open>CheckTokenMembership\<close> for the administrators\<close>
  wi_relaunch :: "'w \<Rightarrow> 'w"  \<comment> \<open>\<open>ShellExecuteExW\<close> of this program with the verb \<open>runas\<close>\<close>

text \<open>The three commands, and the text of the whole command line for \<open>system\<close>.\<close>

definition show_command :: "bytes \<Rightarrow> bytes" where
  \<open>show_command name = ascii ''advfirewall firewall show rule name="'' @ name @ ascii ''"''\<close>

definition add_command :: "bytes \<Rightarrow> bytes \<Rightarrow> bytes \<Rightarrow> bytes" where
  \<open>add_command name protocol ports = ascii ''advfirewall firewall add rule name="'' @ name
     @ ascii ''" protocol='' @ protocol @ ascii '' dir=in localport='' @ ports @ ascii '' action=allow''\<close>

definition delete_command :: "bytes \<Rightarrow> bytes" where
  \<open>delete_command name = ascii ''advfirewall firewall delete rule name="'' @ name @ ascii ''"''\<close>

definition netsh :: "bytes \<Rightarrow> bytes" where
  "netsh cmd = ascii ''netsh '' @ cmd"

definition netsh_silent :: "bytes \<Rightarrow> bytes" where
  "netsh_silent cmd = ascii ''netsh '' @ cmd @ ascii '' >nul 2>&1''"

definition UDP_RULE :: bytes where "UDP_RULE = ascii ''NetTransfer UDP''"
definition TCP_RULE :: bytes where "TCP_RULE = ascii ''NetTransfer TCP''"

definition add_udp_command :: bytes where
  "add_udp_command = add_command UDP_RULE (ascii ''UDP'') (ascii ''50000'')"

definition add_tcp_command :: bytes where
  "add_tcp_command = add_command TCP_RULE (ascii ''TCP'') (ascii ''50001-50100'')"

section \<open>The graphical program\<close>

text \<open>
  When the process was not started, \<open>hProcess\<close> is null, \<open>GetExitCodeProcess\<close> fails and the variable
  \<open>exitCode\<close> is read although nothing wrote it.
\<close>

definition exit_ok :: "int option \<times> 'w \<Rightarrow> (bool \<times> 'w) run" where
  "exit_ok result = (case result of (exitCode, w) \<Rightarrow> andThen (initialised exitCode) (\<lambda>code. Inr (code = 0, w)))"

definition runSilent :: "'w windows \<Rightarrow> bytes \<Rightarrow> 'w \<Rightarrow> (bool \<times> 'w) run" where
  "runSilent sys cmd w = exit_ok (wi_execute sys True cmd w)"

definition firewallRuleExists :: "'w windows \<Rightarrow> bytes \<Rightarrow> 'w \<Rightarrow> (bool \<times> 'w) run" where
  "firewallRuleExists sys name w = exit_ok (wi_execute sys False (show_command name) w)"

definition addFirewallRules :: "'w windows \<Rightarrow> 'w \<Rightarrow> (bool \<times> 'w) run" where
  "addFirewallRules sys w =
     andThen (firewallRuleExists sys UDP_RULE w) (\<lambda>(udpExists, w).
     andThen (firewallRuleExists sys TCP_RULE w) (\<lambda>(tcpExists, w).
     if udpExists \<and> tcpExists then Inr (True, w)
     else if \<not> wi_admin sys w then Inr (False, wi_relaunch sys w)
     else
       andThen (if udpExists then Inr (True, w) else runSilent sys add_udp_command w) (\<lambda>(_, w).
       andThen (if tcpExists then Inr (True, w) else runSilent sys add_tcp_command w) (\<lambda>(_, w).
       Inr (True, w)))))"

text \<open>
  \<open>main\<close>; \<open>run_window\<close> constructs the window and runs the event loop. \<open>None\<close> is the build for other systems,
  which does not touch a firewall; the result \<open>None\<close> is the return without a window.
\<close>

definition gui_main :: "'w windows option \<Rightarrow> ('w \<Rightarrow> 'r run) \<Rightarrow> 'w \<Rightarrow> 'r option run" where
  "gui_main platform run_window w =
     (case platform of
        None \<Rightarrow> andThen (run_window w) (\<lambda>r. Inr (Some r))
      | Some sys \<Rightarrow>
          andThen (addFirewallRules sys w) (\<lambda>(ok, w).
          if \<not> ok then Inr None else andThen (run_window w) (\<lambda>r. Inr (Some r))))"

section \<open>The command line program\<close>

definition cli_firewallRuleExists :: "'w windows \<Rightarrow> bytes \<Rightarrow> 'w \<Rightarrow> bool \<times> 'w" where
  "cli_firewallRuleExists sys name w =
     (let (result, w) = wi_system sys (netsh_silent (show_command name)) w in (result = 0, w))"

definition WARNING :: "bytes list" where
  "WARNING = map ascii
     [''WARNING: Could not add firewall rules.'',
      ''Please run NetTransfer as Administrator for full functionality.'',
      ''Without firewall rules, other devices may not be able to find this PC.'']"

text \<open>The result is what is printed, line by line.\<close>

definition cli_addFirewallRules :: "'w windows \<Rightarrow> 'w \<Rightarrow> bytes list \<times> 'w" where
  "cli_addFirewallRules sys w =
     (let (udpExists, w) = cli_firewallRuleExists sys UDP_RULE w;
          (failed, out, w) =
            (if udpExists then (False, [], w)
             else let (result, w) = wi_system sys (netsh_silent add_udp_command) w
                  in if result \<noteq> 0 then (True, WARNING, w)
                     else (False, [ascii ''Added firewall rule: NetTransfer UDP''], w))
      in if failed then (out, w)
         else
           let (tcpExists, w) = cli_firewallRuleExists sys TCP_RULE w
           in if tcpExists then (out, w)
              else let (result, w) = wi_system sys (netsh_silent add_tcp_command) w
                   in if result \<noteq> 0 then (out @ WARNING, w)
                      else (out @ [ascii ''Added firewall rule: NetTransfer TCP''], w))"

section \<open>Removing the rules\<close>

definition uninstall_rules :: "'w windows \<Rightarrow> 'w \<Rightarrow> bytes list \<times> 'w" where
  "uninstall_rules sys w =
     (let (r1, w) = wi_system sys (netsh (delete_command UDP_RULE)) w;
          (r2, w) = wi_system sys (netsh (delete_command TCP_RULE)) w
      in ([ascii ''Removing NetTransfer firewall rules...'']
          @ (if r1 = 0 \<and> r2 = 0 then [ascii ''Rules removed successfully.'']
             else map ascii [''One or more rules could not be removed.'',
                             ''Make sure you are running as Administrator.''])
          @ [ascii ''Press Enter to exit.''], w))"

section \<open>The launcher\<close>

text \<open>
  \<open>rfind\<close> of the last backslash; without one it gives \<open>npos\<close>, and \<open>substr(0, npos)\<close> is the whole path.
\<close>

definition launched :: "16 word list \<Rightarrow> 16 word list" where
  "launched path =
     (let dir = (if 92 \<in> set path then rev (tl (dropWhile (\<lambda>c. c \<noteq> 92) (rev path))) else path)
      in dir @ [92] @ map of_char ''app'' @ [92] @ map of_char ''NetTransfer.exe'')"

section \<open>The rules\<close>

text \<open>A rule that allows incoming packets to a range of local ports.\<close>

record fw_rule =
  fr_name :: bytes
  fr_protocol :: bytes
  fr_low :: u16
  fr_high :: u16

definition udp_rule :: fw_rule where
  "udp_rule = \<lparr>fr_name = UDP_RULE, fr_protocol = ascii ''UDP'', fr_low = 50000, fr_high = 50000\<rparr>"

definition tcp_rule :: fw_rule where
  "tcp_rule = \<lparr>fr_name = TCP_RULE, fr_protocol = ascii ''TCP'', fr_low = 50001, fr_high = 50100\<rparr>"

definition port_text :: "fw_rule \<Rightarrow> bytes" where
  "port_text r = (if fr_low r = fr_high r then to_string (unat (fr_low r))
     else to_string (unat (fr_low r)) @ ascii ''-'' @ to_string (unat (fr_high r)))"

definition rule_command :: "fw_rule \<Rightarrow> bytes" where
  "rule_command r = add_command (fr_name r) (fr_protocol r) (port_text r)"

definition covers :: "fw_rule \<Rightarrow> u16 \<Rightarrow> bool" where
  "covers r port \<longleftrightarrow> fr_low r \<le> port \<and> port \<le> fr_high r"

definition names :: "fw_rule list \<Rightarrow> bytes set" where
  "names rs = fr_name ` set rs"

definition missing :: "fw_rule list \<Rightarrow> fw_rule list" where
  "missing rs = filter (\<lambda>r. fr_name r \<notin> names rs) [udp_rule, tcp_rule]"

text \<open>
  What is documented of \<open>netsh\<close>, for the commands the programs use; \<open>rules\<close> reads the rules of the
  machine. \<open>show\<close> succeeds when a rule has the name and changes nothing; \<open>add\<close> and \<open>delete\<close> work for an
  administrator and change nothing otherwise; \<open>system\<close> gives the exit code of the command it runs.
\<close>

definition commands :: "bytes list" where
  "commands = map show_command [UDP_RULE, TCP_RULE] @ map rule_command [udp_rule, tcp_rule]
     @ map delete_command [UDP_RULE, TCP_RULE]"

definition netsh_shows :: "'w windows \<Rightarrow> ('w \<Rightarrow> fw_rule list) \<Rightarrow> bool" where
  "netsh_shows sys rules \<longleftrightarrow> (\<forall>w. \<forall>n \<in> {UDP_RULE, TCP_RULE}.
     wi_execute sys False (show_command n) w = (Some (if n \<in> names (rules w) then 0 else 1), w))"

definition netsh_adds :: "'w windows \<Rightarrow> ('w \<Rightarrow> fw_rule list) \<Rightarrow> bool" where
  "netsh_adds sys rules \<longleftrightarrow> (\<forall>w. \<forall>r \<in> {udp_rule, tcp_rule}.
     if wi_admin sys w
     then \<forall>verb. \<exists>w'. wi_execute sys verb (rule_command r) w = (Some 0, w') \<and> rules w' = rules w @ [r] \<and> wi_admin sys w'
     else wi_execute sys False (rule_command r) w = (Some 1, w))"

definition netsh_deletes :: "'w windows \<Rightarrow> ('w \<Rightarrow> fw_rule list) \<Rightarrow> bool" where
  "netsh_deletes sys rules \<longleftrightarrow> (\<forall>w. \<forall>n \<in> {UDP_RULE, TCP_RULE}.
     if wi_admin sys w
     then \<exists>w'. wi_execute sys False (delete_command n) w = (Some (if n \<in> names (rules w) then 0 else 1), w')
        \<and> rules w' = filter (\<lambda>r. fr_name r \<noteq> n) (rules w) \<and> wi_admin sys w'
     else wi_execute sys False (delete_command n) w = (Some 1, w))"

definition system_runs_netsh :: "'w windows \<Rightarrow> bool" where
  "system_runs_netsh sys \<longleftrightarrow> (\<forall>w code w'. \<forall>cmd \<in> set commands. wi_execute sys False cmd w = (Some code, w') \<longrightarrow>
     wi_system sys (netsh cmd) w = (code, w') \<and> wi_system sys (netsh_silent cmd) w = (code, w'))"

definition netsh_laws :: "'w windows \<Rightarrow> ('w \<Rightarrow> fw_rule list) \<Rightarrow> bool" where
  "netsh_laws sys rules \<longleftrightarrow>
     netsh_shows sys rules \<and> netsh_adds sys rules \<and> netsh_deletes sys rules \<and> system_runs_netsh sys"

text \<open>The commands in the source are those for the two rules.\<close>

lemma source_commands: "add_udp_command = rule_command udp_rule" "add_tcp_command = rule_command tcp_rule"
proof -
  have "to_string 50000 = ascii ''50000''" "to_string 50001 @ ascii ''-'' @ to_string 50100 = ascii ''50001-50100''"
    by (simp_all add: to_string.simps ascii_def)
  then show "add_udp_command = rule_command udp_rule" "add_tcp_command = rule_command tcp_rule"
    by (simp_all add: add_udp_command_def add_tcp_command_def rule_command_def port_text_def udp_rule_def tcp_rule_def)
qed

lemma rule_names [simp]: "fr_name udp_rule = UDP_RULE" "fr_name tcp_rule = TCP_RULE" "UDP_RULE \<noteq> TCP_RULE" "TCP_RULE \<noteq> UDP_RULE"
  by (simp_all add: udp_rule_def tcp_rule_def UDP_RULE_def TCP_RULE_def ascii_def)

lemma names_simps [simp]: "names [] = {}" "names (r # rs) = insert (fr_name r) (names rs)"
  "names (rs @ rs') = names rs \<union> names rs'"
  by (auto simp: names_def)

lemma missing_cases:
  "missing rs = (if UDP_RULE \<in> names rs then [] else [udp_rule]) @ (if TCP_RULE \<in> names rs then [] else [tcp_rule])"
  by (simp add: missing_def)

lemma missing_added: "missing (rs @ missing rs) = []"
  by (auto simp: missing_cases)

lemma commands_mem:
  "n \<in> {UDP_RULE, TCP_RULE} \<Longrightarrow> show_command n \<in> set commands"
  "r \<in> {udp_rule, tcp_rule} \<Longrightarrow> rule_command r \<in> set commands"
  "n \<in> {UDP_RULE, TCP_RULE} \<Longrightarrow> delete_command n \<in> set commands"
  by (auto simp: commands_def)

lemma netsh_show:
  "netsh_laws sys rules \<Longrightarrow> n \<in> {UDP_RULE, TCP_RULE} \<Longrightarrow>
   wi_execute sys False (show_command n) w = (Some (if n \<in> names (rules w) then 0 else 1), w)"
  by (simp only: netsh_laws_def netsh_shows_def)

lemma netsh_add:
  "netsh_laws sys rules \<Longrightarrow> r \<in> {udp_rule, tcp_rule} \<Longrightarrow> wi_admin sys w \<Longrightarrow>
   \<exists>w'. wi_execute sys verb (rule_command r) w = (Some 0, w') \<and> rules w' = rules w @ [r] \<and> wi_admin sys w'"
  by (simp only: netsh_laws_def netsh_adds_def if_True)

lemma netsh_add_refused:
  "netsh_laws sys rules \<Longrightarrow> r \<in> {udp_rule, tcp_rule} \<Longrightarrow> \<not> wi_admin sys w \<Longrightarrow>
   wi_execute sys False (rule_command r) w = (Some 1, w)"
  by (simp add: netsh_laws_def netsh_adds_def split: if_splits) metis

lemma netsh_delete:
  "netsh_laws sys rules \<Longrightarrow> n \<in> {UDP_RULE, TCP_RULE} \<Longrightarrow> wi_admin sys w \<Longrightarrow>
   \<exists>w'. wi_execute sys False (delete_command n) w = (Some (if n \<in> names (rules w) then 0 else 1), w')
    \<and> rules w' = filter (\<lambda>r. fr_name r \<noteq> n) (rules w) \<and> wi_admin sys w'"
  by (simp only: netsh_laws_def netsh_deletes_def if_True)

lemma system_netsh:
  assumes "netsh_laws sys rules" and "cmd \<in> set commands" and "wi_execute sys False cmd w = (Some code, w')"
  shows "wi_system sys (netsh cmd) w = (code, w')" and "wi_system sys (netsh_silent cmd) w = (code, w')"
  using assms by (simp_all add: netsh_laws_def system_runs_netsh_def)

lemma rule_exists:
  assumes "netsh_laws sys rules" and "n \<in> {UDP_RULE, TCP_RULE}"
  shows "firewallRuleExists sys n w = Inr (n \<in> names (rules w), w)"
    and "cli_firewallRuleExists sys n w = (n \<in> names (rules w), w)"
  using netsh_show [OF assms, of w] system_netsh(2) [OF assms(1) commands_mem(1) [OF assms(2)] netsh_show [OF assms], of w]
  by (simp_all add: firewallRuleExists_def exit_ok_def cli_firewallRuleExists_def)

text \<open>Adding one rule unless it exists, as both programs do it.\<close>

lemma runSilent_adds:
  assumes "netsh_laws sys rules" and "r \<in> {udp_rule, tcp_rule}" and "wi_admin sys w"
  shows "\<exists>w'. (if present then Inr (True, w) else runSilent sys (rule_command r) w) = Inr (True, w')
    \<and> rules w' = rules w @ (if present then [] else [r]) \<and> wi_admin sys w'"
  using netsh_add [OF assms, of True] assms(3) by (cases present) (auto simp: runSilent_def exit_ok_def)

lemma system_adds:
  assumes "netsh_laws sys rules" and "r \<in> {udp_rule, tcp_rule}" and "wi_admin sys w"
  shows "\<exists>w'. wi_system sys (netsh_silent (rule_command r)) w = (0, w') \<and> rules w' = rules w @ [r] \<and> wi_admin sys w'"
  using netsh_add [OF assms, of False] system_netsh(2) [OF assms(1) commands_mem(2) [OF assms(2)]] by blast

lemma gui_adds:
  assumes "netsh_laws sys rules" and "wi_admin sys w"
  shows "\<exists>w'. addFirewallRules sys w = Inr (True, w') \<and> rules w' = rules w @ missing (rules w) \<and> wi_admin sys w'"
proof -
  let ?udp = "UDP_RULE \<in> names (rules w)" and ?tcp = "TCP_RULE \<in> names (rules w)"
  obtain w1 where w1: "(if ?udp then Inr (True, w) else runSilent sys (rule_command udp_rule) w) = Inr (True, w1)"
    "rules w1 = rules w @ (if ?udp then [] else [udp_rule])" "wi_admin sys w1"
    using runSilent_adds [OF assms(1) _ assms(2), of udp_rule ?udp] by blast
  obtain w2 where w2: "(if ?tcp then Inr (True, w1) else runSilent sys (rule_command tcp_rule) w1) = Inr (True, w2)"
    "rules w2 = rules w1 @ (if ?tcp then [] else [tcp_rule])" "wi_admin sys w2"
    using runSilent_adds [OF assms(1) _ w1(3), of tcp_rule ?tcp] by blast
  have "addFirewallRules sys w = Inr (True, if ?udp \<and> ?tcp then w else w2)"
    by (cases ?udp; cases ?tcp) (use w1(1) w2(1) assms(2) in
      \<open>simp_all add: addFirewallRules_def rule_exists(1) [OF assms(1)] source_commands\<close>)
  then show ?thesis using w1 w2 assms(2) by (auto simp: missing_cases)
qed

lemma cli_adds:
  assumes "netsh_laws sys rules" and "wi_admin sys w"
  shows "rules (snd (cli_addFirewallRules sys w)) = rules w @ missing (rules w)"
proof -
  note ex = rule_exists(2) [OF assms(1), of UDP_RULE] rule_exists(2) [OF assms(1), of TCP_RULE]
  obtain w1 where w1: "wi_system sys (netsh_silent (rule_command udp_rule)) w = (0, w1)"
    "rules w1 = rules w @ [udp_rule]" "wi_admin sys w1"
    using system_adds [OF assms(1) _ assms(2), of udp_rule] by blast
  obtain w2 where w2: "wi_system sys (netsh_silent (rule_command tcp_rule)) w1 = (0, w2)" "rules w2 = rules w1 @ [tcp_rule]"
    using system_adds [OF assms(1) _ w1(3), of tcp_rule] by blast
  obtain w3 where w3: "wi_system sys (netsh_silent (rule_command tcp_rule)) w = (0, w3)" "rules w3 = rules w @ [tcp_rule]"
    using system_adds [OF assms(1) _ assms(2), of tcp_rule] by blast
  show ?thesis
    by (simp add: cli_addFirewallRules_def ex missing_cases source_commands w1 w2 w3)
qed

lemma cli_refused:
  assumes "netsh_laws sys rules" and "\<not> wi_admin sys w" and "missing (rules w) \<noteq> []"
  shows "cli_addFirewallRules sys w = (WARNING, w)"
proof -
  note ex = rule_exists(2) [OF assms(1), of UDP_RULE] rule_exists(2) [OF assms(1), of TCP_RULE]
  have "wi_system sys (netsh_silent (rule_command r)) w = (1, w)" if "r \<in> {udp_rule, tcp_rule}" for r
    by (rule system_netsh(2) [OF assms(1) commands_mem(2) [OF that] netsh_add_refused [OF assms(1) that assms(2)]])
  then show ?thesis
    using assms(3) by (auto simp: cli_addFirewallRules_def ex missing_cases source_commands split: if_splits)
qed

lemma cli_present:
  assumes "netsh_laws sys rules" and "missing (rules w) = []"
  shows "cli_addFirewallRules sys w = ([], w)"
  using assms(2)
  by (auto simp: cli_addFirewallRules_def rule_exists(2) [OF assms(1)] missing_cases split: if_splits)

text \<open>A machine on which \<open>netsh\<close> does what is documented: its rules, and whether the user is an administrator.\<close>

type_synonym machine = "fw_rule list \<times> bool"

definition machine_execute :: "bytes \<Rightarrow> machine \<Rightarrow> int option \<times> machine" where
  "machine_execute cmd w =
     (let exists = (\<lambda>n. Some (if n \<in> names (fst w) then 0 else 1));
          add = (\<lambda>r. if snd w then (Some 0, (fst w @ [r], True)) else (Some 1, w));
          remove = (\<lambda>n. if snd w then (exists n, (filter (\<lambda>r. fr_name r \<noteq> n) (fst w), True)) else (Some 1, w))
      in if cmd = show_command UDP_RULE then (exists UDP_RULE, w)
         else if cmd = show_command TCP_RULE then (exists TCP_RULE, w)
         else if cmd = rule_command udp_rule then add udp_rule
         else if cmd = rule_command tcp_rule then add tcp_rule
         else if cmd = delete_command UDP_RULE then remove UDP_RULE
         else if cmd = delete_command TCP_RULE then remove TCP_RULE
         else (Some 1, w))"

text \<open>\<open>system\<close> on this machine, for the command lines made of these commands.\<close>

definition machine_system :: "bytes \<Rightarrow> machine \<Rightarrow> int \<times> machine" where
  "machine_system line w =
     (case find (\<lambda>cmd. line = netsh cmd \<or> line = netsh_silent cmd) commands of
        None \<Rightarrow> (1, w)
      | Some cmd \<Rightarrow> (let (code, w') = machine_execute cmd w in (the code, w')))"

definition machine_windows :: "machine windows" where
  "machine_windows = \<lparr>wi_execute = (\<lambda>verb. machine_execute), wi_system = machine_system,
     wi_admin = snd, wi_relaunch = id\<rparr>"

lemma command_kinds:
  "show_command n \<noteq> rule_command r" "show_command n \<noteq> delete_command n'" "rule_command r \<noteq> delete_command n"
  by (simp_all add: show_command_def rule_command_def add_command_def delete_command_def ascii_def)

lemma command_inject [simp]:
  "show_command n = show_command n' \<longleftrightarrow> n = n'" "delete_command n = delete_command n' \<longleftrightarrow> n = n'"
  by (simp_all add: show_command_def delete_command_def)

lemma rule_command_distinct: "rule_command udp_rule \<noteq> rule_command tcp_rule"
  by (simp add: rule_command_def add_command_def UDP_RULE_def TCP_RULE_def ascii_def)

lemmas command_neqs = command_kinds command_kinds [symmetric] rule_command_distinct rule_command_distinct [symmetric]

lemma last_command: "cmd \<in> set commands \<Longrightarrow> cmd \<noteq> [] \<and> last cmd \<noteq> 49"
  by (auto simp: commands_def show_command_def rule_command_def add_command_def delete_command_def ascii_def)

lemma netsh_lines:
  assumes "cmd \<in> set commands" and "cmd' \<in> set commands"
  shows "netsh cmd = netsh cmd' \<longleftrightarrow> cmd = cmd'" "netsh_silent cmd = netsh_silent cmd' \<longleftrightarrow> cmd = cmd'"
    and "netsh cmd \<noteq> netsh_silent cmd'"
proof -
  have "last (netsh cmd) \<noteq> last (netsh_silent cmd')"
    using last_command [OF assms(1)] by (simp add: netsh_def netsh_silent_def ascii_def)
  then show "netsh cmd \<noteq> netsh_silent cmd'" by metis
qed (simp_all add: netsh_def netsh_silent_def)

lemma find_command:
  assumes "cmd \<in> set commands" and "line = netsh cmd \<or> line = netsh_silent cmd"
  shows "find (\<lambda>cmd. line = netsh cmd \<or> line = netsh_silent cmd) commands = Some cmd"
proof (cases "find (\<lambda>cmd. line = netsh cmd \<or> line = netsh_silent cmd) commands")
  case None
  with assms show ?thesis by (auto simp: find_None_iff)
next
  case (Some cmd')
  then have "cmd' \<in> set commands" "line = netsh cmd' \<or> line = netsh_silent cmd'"
    by (auto simp: find_Some_iff)
  with Some assms netsh_lines [of cmd cmd'] netsh_lines [of cmd' cmd] show ?thesis by auto
qed

lemma machine_laws: "netsh_laws machine_windows fst"
proof -
  have "system_runs_netsh machine_windows"
    using find_command by (auto simp: system_runs_netsh_def machine_windows_def machine_system_def)
  moreover have "netsh_shows machine_windows fst"
    by (simp add: netsh_shows_def machine_windows_def machine_execute_def Let_def)
  moreover have "netsh_adds machine_windows fst"
    by (simp add: netsh_adds_def machine_windows_def machine_execute_def command_neqs Let_def)
  moreover have "netsh_deletes machine_windows fst"
    by (simp add: netsh_deletes_def machine_windows_def machine_execute_def command_neqs Let_def)
  ultimately show ?thesis by (simp add: netsh_laws_def)
qed

section \<open>Properties\<close>

lemma addFirewallRules_present:
  assumes "netsh_laws sys rules" and "missing (rules w) = []"
  shows "addFirewallRules sys w = Inr (True, w)"
  using assms(2) by (auto simp: addFirewallRules_def rule_exists(1) [OF assms(1)] missing_cases split: if_splits)

lemma addFirewallRules_refused:
  assumes "netsh_laws sys rules" and "missing (rules w) \<noteq> []" and "\<not> wi_admin sys w"
  shows "addFirewallRules sys w = Inr (False, wi_relaunch sys w)"
  using assms(2,3) by (auto simp: addFirewallRules_def rule_exists(1) [OF assms(1)] missing_cases split: if_splits)

text \<open>
  C39. The firewall rules at the start, for a \<open>netsh\<close> that behaves as documented. When rules of both
  names exist nothing is changed and no rights are needed. When one is missing, an administrator's
  start adds exactly the missing rules, the command line program adds the same ones, and the next start of either has
  nothing to do. Without the rights the graphical program relaunches itself and ends without a window,
  while the command line program changes nothing and prints a warning.
\<close>

theorem firewall_setup:
  assumes "netsh_laws sys rules"
  shows "(missing (rules w) = [] \<longrightarrow> addFirewallRules sys w = Inr (True, w))
    \<and> (wi_admin sys w \<longrightarrow> (\<exists>w'. addFirewallRules sys w = Inr (True, w')
        \<and> rules w' = rules w @ missing (rules w)
        \<and> rules (snd (cli_addFirewallRules sys w)) = rules w'
        \<and> addFirewallRules sys w' = Inr (True, w') \<and> cli_addFirewallRules sys w' = ([], w')))
    \<and> (missing (rules w) \<noteq> [] \<and> \<not> wi_admin sys w \<longrightarrow>
        addFirewallRules sys w = Inr (False, wi_relaunch sys w)
        \<and> gui_main (Some sys) run_window w = Inr None
        \<and> cli_addFirewallRules sys w = (WARNING, w))"
proof (intro conjI impI)
  assume "wi_admin sys w"
  then show "\<exists>w'. addFirewallRules sys w = Inr (True, w') \<and> rules w' = rules w @ missing (rules w)
      \<and> rules (snd (cli_addFirewallRules sys w)) = rules w' \<and> addFirewallRules sys w' = Inr (True, w')
      \<and> cli_addFirewallRules sys w' = ([], w')"
    using cli_present [OF assms] gui_adds [OF assms] cli_adds [OF assms] addFirewallRules_present [OF assms] by (metis missing_added)
qed (use assms in \<open>simp_all add: addFirewallRules_present addFirewallRules_refused cli_refused gui_main_def\<close>)

theorem firewall_setup_witness:
  "\<exists>w'. addFirewallRules machine_windows ([tcp_rule], True) = Inr (True, w') \<and> fst w' = [tcp_rule, udp_rule]"
proof -
  have "wi_admin machine_windows ([tcp_rule], True)" "missing [tcp_rule] = [udp_rule]"
    by (simp_all add: machine_windows_def missing_cases)
  then show ?thesis using firewall_setup [OF machine_laws, of "([tcp_rule], True)"] by auto
qed

text \<open>
  Removing the rules undoes adding them: on a machine without rules of these names, an
  administrator who starts the graphical program and then runs \<open>uninstall_rules\<close> has the rules of
  before, and the success is printed.
\<close>

theorem uninstall_restores:
  assumes "netsh_laws sys rules" and "wi_admin sys w" and "missing (rules w) = [udp_rule, tcp_rule]"
    and "addFirewallRules sys w = Inr (ok, w')"
  shows "ok \<and> rules (snd (uninstall_rules sys w')) = rules w
    \<and> ascii ''Rules removed successfully.'' \<in> set (fst (uninstall_rules sys w'))"
proof -
  have w': "ok" "rules w' = rules w @ [udp_rule, tcp_rule]" "wi_admin sys w'"
    using gui_adds [OF assms(1,2)] assms(3,4) by auto
  have fresh: "UDP_RULE \<notin> names (rules w)" "TCP_RULE \<notin> names (rules w)"
    using assms(3) by (auto simp: missing_cases split: if_splits)
  obtain w1 where w1: "wi_execute sys False (delete_command UDP_RULE) w' = (Some 0, w1)"
    "rules w1 = filter (\<lambda>r. fr_name r \<noteq> UDP_RULE) (rules w')" "wi_admin sys w1"
    using netsh_delete [OF assms(1) _ w'(3), of UDP_RULE] w'(2) by auto
  have in1: "TCP_RULE \<in> names (rules w1)" by (simp add: w1(2) w'(2))
  obtain w2 where w2: "wi_execute sys False (delete_command TCP_RULE) w1 = (Some 0, w2)"
    "rules w2 = filter (\<lambda>r. fr_name r \<noteq> TCP_RULE) (rules w1)"
    using netsh_delete [OF assms(1) _ w1(3), of TCP_RULE] in1 by auto
  have "wi_system sys (netsh (delete_command UDP_RULE)) w' = (0, w1)"
    "wi_system sys (netsh (delete_command TCP_RULE)) w1 = (0, w2)"
    using system_netsh(1) [OF assms(1) commands_mem(3)] w1(1) w2(1) by simp_all
  moreover have "rules w2 = rules w"
    using fresh unfolding w2(2) w1(2) w'(2) names_def filter_append filter_filter
    by (auto simp: filter_id_conv image_iff)
  ultimately show ?thesis using w'(1) by (simp add: uninstall_rules_def)
qed

theorem uninstall_restores_witness:
  "\<exists>ok w'. addFirewallRules machine_windows ([], True) = Inr (ok, w') \<and> ok
     \<and> fst (snd (uninstall_rules machine_windows w')) = []"
proof -
  have a: "wi_admin machine_windows ([], True)" "missing (fst ([], True)) = [udp_rule, tcp_rule]"
    by (simp_all add: machine_windows_def missing_cases)
  obtain w' where w': "addFirewallRules machine_windows ([], True) = Inr (True, w')"
    using gui_adds [OF machine_laws a(1)] by blast
  from uninstall_restores [OF machine_laws a w'] w' show ?thesis by auto
qed

text \<open>
  C40. Which ports the rules open. The commands of the source add the two rules of the model. The rule for UDP opens the discovery port. The port that the receiver binds is
  opened by the rule for TCP exactly when it is not below \<open>TCP_PORT_MIN\<close>: always, when the configured
  port is in the range; but a smaller configured port that can be bound is used and stays closed.
\<close>

theorem firewall_opens_port:
  assumes "startReceiver env (newTransferReceiver port sid sz garbage) = (True, st, fx)"
  shows "add_udp_command = rule_command udp_rule \<and> add_tcp_command = rule_command tcp_rule
    \<and> covers udp_rule UDP_DISCOVERY_PORT \<and> \<not> covers tcp_rule UDP_DISCOVERY_PORT
    \<and> (covers tcp_rule (getPort st) \<longleftrightarrow> TCP_PORT_MIN \<le> getPort st)
    \<and> (TCP_PORT_MIN \<le> port \<longrightarrow> covers tcp_rule (getPort st))
    \<and> (port < TCP_PORT_MIN \<and> re_bind_ok env port \<longrightarrow> getPort st = port \<and> \<not> covers tcp_rule (getPort st))"
proof -
  have b: "bind_loop (re_bind_ok env) port = Some (getPort st)"
    using assms by (auto simp: startReceiver_def newTransferReceiver_def listenForConnections_def getPort_def
        split: option.splits)
  then have range: "port \<le> getPort st" "getPort st \<le> TCP_PORT_MAX"
    using bind_loop_spec [where ok = "re_bind_ok env" and port = port] by simp_all
  have c: "covers tcp_rule (getPort st) \<longleftrightarrow> TCP_PORT_MIN \<le> getPort st"
    using range(2) by (simp add: covers_def tcp_rule_def TCP_PORT_MIN_def TCP_PORT_MAX_def)
  moreover have "getPort st = port" if "port < TCP_PORT_MIN" "re_bind_ok env port"
  proof -
    have "port \<le> TCP_PORT_MAX" using that(1) by (simp add: TCP_PORT_MIN_def TCP_PORT_MAX_def word_less_nat_alt word_le_nat_alt)
    with b that(2) show ?thesis by (simp add: bind_loop.simps [of _ port])
  qed
  ultimately show ?thesis using range(1)
    by (auto simp: source_commands covers_def udp_rule_def tcp_rule_def UDP_DISCOVERY_PORT_def)
qed

theorem firewall_opens_port_witness:
  "\<exists>st fx. startReceiver (sample_renv\<lparr>re_bind_ok := \<lambda>_. True\<rparr>) (newTransferReceiver 8080 0 0 []) = (True, st, fx)
     \<and> getPort st = 8080 \<and> \<not> covers tcp_rule (getPort st)"
proof -
  let ?env = "sample_renv\<lparr>re_bind_ok := \<lambda>_. True\<rparr>"
  obtain st fx where s: "startReceiver ?env (newTransferReceiver 8080 0 0 []) = (True, st, fx)"
    by (simp add: startReceiver_def newTransferReceiver_def bind_loop.simps listenForConnections_def TCP_PORT_MAX_def)
  from firewall_opens_port [OF s] s show ?thesis by (auto simp: TCP_PORT_MIN_def)
qed

text \<open>The launcher starts the program in the folder \<open>app\<close> beside it.\<close>

lemma launched_beside:
  assumes "92 \<notin> set file_name"
  shows "launched (dir @ [92] @ file_name) = dir @ [92] @ map of_char ''app'' @ [92] @ map of_char ''NetTransfer.exe''"
proof -
  have "dropWhile (\<lambda>c. c \<noteq> 92) (rev file_name @ 92 # rev dir) = 92 # rev dir"
    using assms by (subst dropWhile_append2) auto
  then show ?thesis by (simp add: launched_def)
qed

text \<open>A \<open>netsh\<close> that cannot be started leaves the exit code without a value.\<close>

lemma netsh_not_started:
  assumes "wi_execute sys False (show_command UDP_RULE) w = (None, w')"
  shows "addFirewallRules sys w = Inl Uninitialised"
  using assms by (simp add: addFirewallRules_def firewallRuleExists_def exit_ok_def)

end
