(* ===== verification/Spec2Isabelle.thy ===== *)
theory Spec2Isabelle
  imports File_Refusal Net_System Sender_Objects Callbacks Progress_Display Command_Line Windows_Setup
begin

text \<open>
  NetTransfer sends files between the computers of a local network. This development models the
  program in \<open>src/src\<close> and \<open>src/include\<close> and proves what its parts and their composition do.

  \<^bold>\<open>The program.\<close> \<open>NetTransfer\<close> owns everything that runs: a \<open>DiscoveryService\<close> that announces the
  device by UDP and keeps a table of the devices heard, a \<open>TransferReceiver\<close> that accepts TLS
  connections and stores the offered file when the user agrees, and a \<open>TransferSender\<close> per file
  sent. All three are written as completion handlers of Asio operations on one io thread and speak
  the wire protocol of \<open>protocol.cpp\<close>, whose headers carry a CRC-32. \<open>NetTransfer\<close> also keeps the
  configuration, the certificate and the store of trusted fingerprints. \<open>NetTransferBridge\<close> turns
  its callbacks into Qt signals for \<open>MainWindow\<close>; \<open>main.cpp\<close> is a command line around the same class.
  On Windows \<open>main_gui.cpp\<close> and \<open>main.cpp\<close> add firewall rules first, \<open>uninstall_rules.cpp\<close> removes
  them and \<open>launcher.cpp\<close> starts the program.

  \<^bold>\<open>Conventions.\<close> An integer of the source is a word of its width, so that arithmetic wraps as in
  C++; a byte vector, a buffer and a \<open>std::string\<close> are lists of bytes; a struct or class is a record
  and each method a definition on it that returns the new state and the list of its effects
  (messages written, operations started, callbacks made), in order. The result type \<open>run\<close> of
  \<open>Prelude\<close> is the error or the value: \<open>OutOfBounds\<close> is an access outside an object or through a
  null pointer, \<open>Uninitialised\<close> the use of a value that was never set, \<open>Uncaught\<close> an exception that
  leaves a handler or \<open>main\<close>, \<open>Diverges\<close> a loop without end, \<open>BadConversion\<close> a floating-point number
  that does not fit the integer type it is converted to, \<open>Overflow\<close> that of a signed integer. A member without initialiser is an
  arbitrary argument of the constructor, or an option. What the operating system and the peer do is
  an argument too: environments (\<open>udp_env\<close>, \<open>sender_env\<close>, \<open>receiver_env\<close>, \<open>net_env\<close>) answer the
  calls of a handler, and a completion carries its error code and the bytes read. A disk maps paths
  to contents. OpenSSL's digest (\<open>evp\<close>), certificates (\<open>cert_lib\<close>), nlohmann's parser and printer
  (\<open>json_lib\<close>), Qt's string conversions (\<open>qt_lib\<close>) and \<open>netsh\<close> (\<open>windows\<close>) are parameters; a theorem
  that relies on them says so (\<open>evp_sha256\<close>: feeding blocks to the digest gives the digest of their concatenation;
  \<open>json_ok\<close>: what is printed is parsed as the same value; \<open>displayable\<close>: the names are shown without
  loss; \<open>netsh_laws\<close>: the commands show, add and delete rules), and its witness instantiates the parameter.

  \<^bold>\<open>Theories.\<close>

  \<^item> \<open>Prelude\<close>: machine types, outcomes with the collection \<open>run_simps\<close>, reading and overwriting of
    buffers, big-endian fields.
  \<^item> \<open>Machine\<close>: the locale \<open>state_machine\<close> (an invariant of the initial states and the steps holds in
    every reachable state), interpreted by each of the running systems below.
  \<^item> \<open>Crc32\<close> (\<open>protocol.cpp\<close>): \<open>crc32\<close> with its static table equals the bit-by-bit reference, is linear,
    and detects every error confined to four bytes.
  \<^item> \<open>Protocol\<close>, \<open>Payloads\<close> (\<open>protocol.h\<close>, \<open>protocol.cpp\<close>): every serialiser and deserialiser. The locales
    \<open>payload_codec\<close> and \<open>canonical_codec\<close> are the contract of a pair of them, interpreted six times;
    round trips, canonicity, detection of corrupted headers, and the exact conditions under which the
    deserialisers read outside the payload.
  \<^item> \<open>Discovery\<close>, \<open>Discovery_System\<close> (\<open>discovery.h\<close>, \<open>discovery.cpp\<close>): the service and all its
    executions. The locale \<open>device_table\<close> is the abstract table, implemented by the vector; mutual
    discovery of two services; over-reads and replays of the datagram handler.
  \<^item> \<open>Paths\<close>, \<open>Streams\<close> (\<open>transfer.cpp\<close>): where a received file goes, file streams and the digest loop.
  \<^item> \<open>Sender\<close>, \<open>Sender_System\<close>, \<open>Receiver\<close>, \<open>Receiver_System\<close> (\<open>transfer.h\<close>, \<open>transfer.cpp\<close>): all
    handlers of the two ends, each run against an arbitrary peer. The invariants say what is on the
    wire, on the disk and reported at each outstanding operation.
  \<^item> \<open>Connected_Ends\<close>, \<open>File_Transfer\<close>, \<open>File_Refusal\<close>: both ends connected by reliable byte streams, with
    handlers in any order. The locale \<open>connected_ends\<close> derives from phases of the two ends that every
    run ends after the same number of steps; its two interpretations give the delivery of the file and
    the report of a refusal.
  \<^item> \<open>Net_Store\<close>, \<open>Net_Core\<close> (\<open>NetTransfer.h\<close>, \<open>NetTransfer.cpp\<close>): configuration, fingerprints,
    certificate files; construction, \<open>start\<close>, \<open>stop\<close>, the services for the interface, and trust.
  \<^item> \<open>Net_System\<close>: the running program with arbitrary peers, datagrams and calls of the user; only
    trusted peers' offers are shown, and the calls of a started program find their objects.
  \<^item> \<open>Sender_Objects\<close> (\<open>sendFile\<close> and \<open>stop\<close> of \<open>NetTransfer.cpp\<close>): the sender objects in a heap. The
    member \<open>active_sender\<close> owns one of them, handlers hold plain pointers; sending one file at a time
    is safe, sending during a transfer uses a destroyed object, and two quick calls start one sender twice.
  \<^item> \<open>Doubles\<close>: arithmetic of \<open>double\<close> on values that are not negative, as exact rational arithmetic followed
    by rounding to 53 bits; rounding is monotone and has a small relative error.
  \<^item> \<open>Main_Window\<close> (\<open>NetTransferBridge.cpp\<close>, \<open>mainWindow.cpp\<close>): signals, slots and event handlers; the
    list shown is the device table, and the device picked gets the file.
  \<^item> \<open>Progress_Display\<close> (\<open>onProgress\<close> of \<open>mainWindow.cpp\<close>): what the progress bar shows for one signal and
    over every execution of a sender, and the received chunks for which the conversion is undefined.
  \<^item> \<open>Callbacks\<close> (the setters of all classes, \<open>start\<close>, \<open>sendFile\<close>, \<open>NetTransferBridge::start\<close>): the
    functions installed from the services up to the window; together they queue exactly the
    signals that \<open>Main_Window\<close> describes directly.
  \<^item> \<open>Command_Line\<close> (\<open>main.cpp\<close>): the callbacks with what they print, and the command loop, with \<open>getline\<close>
    and \<open>stoi\<close>.
  \<^item> \<open>Windows_Setup\<close> (\<open>main_gui.cpp\<close>, \<open>main.cpp\<close>, \<open>uninstall_rules.cpp\<close>, \<open>launcher.cpp\<close>): the firewall rules,
    which ports they open, their removal, and the path the launcher starts.
  \<^item> This theory: what discovery, start and receiver do together about the announced port.

  \<^bold>\<open>Loops and bounds.\<close> The loops that end are total functions: expiry by the entries left, the search
  for a port by the distance to 50101, the digest by the bytes left, the command loop by the events
  left (an exhausted input is \<open>Diverges\<close>, because the loop then never ends). The search for a free file
  name ends because its counter is an \<open>int\<close>: when all copies exist the increment overflows, and
  \<open>Paths.resolveFilePath_fresh\<close> says that this is the only way to fail and that it does not happen in a folder with
  finitely many names, fewer than \<open>INT_MAX - 1\<close>. No model uses fuel. Executions
  are the reflexive transitive closures of step relations, without a bound on their length; the runs
  of a transfer have a length that is part of the theorems. Discovery names are limited to 486 bytes
  where a statement needs the datagram to fit the buffer of 512; longer names are the subject of
  \<open>Discovery_System.discovery_overread\<close>. File sizes are arbitrary, and the counters wrap at 64 bits.

  A \<open>double\<close> has no exponent bounds in the model: the values met are zero or between \<open>2 ^ -64\<close> and
  \<open>2 ^ 71\<close>.

  \<^bold>\<open>Not modelled.\<close> The Windows branches of \<open>getConfigPath\<close> and \<open>getDownloadsFolder\<close>, which ask the shell
  for a folder, so that the program itself is modelled as built for POSIX; the creation and the looks
  of the widgets and the highlighting of list items; what the classes of the program log to the
  console; TLS itself (a handshake succeeds or fails, and shows a certificate or none) and the vendored
  Asio and nlohmann libraries. Handlers are atomic, because one io thread runs them; data races of the
  interface's thread with that thread are not represented: a call of the interface happens between two
  handlers, and what \<open>accept\<close> and \<open>reject\<close> post to the io thread runs at once. Some failures are not
  represented: reopening a stored file for its digest, and writing to a configuration, trust or key file that could be
  opened. \<open>crc32\<close> reads as many bytes as there are, which covers its calls. \<open>Net_System\<close> keeps the active sender as a value; its lifetime is the subject of
  \<open>Sender_Objects\<close>.
\<close>

section \<open>The port that is announced\<close>

lemma announcement_heard:
  assumes "length (ds_device_name a) \<le> 486" and "length (ds_buffer_incoming b) = BUFFER_MAX_SIZE"
    and "env_local env = Some self" and "sender \<noteq> self" and "env_send_ok env"
    and "ds_device_name a \<noteq> ds_device_name b" and "distinct_names (getDevices b)"
  shows "\<exists>b' fx. on_package env b None sender (frame DISCOVERY_BROADCAST 0 (own_payload a)) = Inr (b', fx)
    \<and> length (ds_buffer_incoming b') = BUFFER_MAX_SIZE \<and> ds_device_name b' = ds_device_name b
    \<and> distinct_names (getDevices b')
    \<and> lookup_device (getDevices b') (ds_device_name a) =
        Some (case lookup_device (getDevices b) (ds_device_name a) of
            None \<Rightarrow> (env_to_string env sender, ds_tcp_port a, env_now env)
          | Some (ip, port, _) \<Rightarrow> (ip, port, env_now env))"
proof -
  let ?m = "frame DISCOVERY_BROADCAST 0 (own_payload a)"
  let ?p = "\<lparr>dp_device_name = ds_device_name a, dp_tcp_port = ds_tcp_port a\<rparr>"
  obtain b' found fx where n: "note_device env sender ?p (store_datagram ?m b) = (b', found)"
    and p: "on_package env b None sender ?m = Inr (b', fx)"
    using on_package_announcement [OF assms(1-6), of DISCOVERY_BROADCAST] by auto
  have d: "distinct_names (ds_discoveredDevices (store_datagram ?m b))"
    using assms(7) by (simp add: getDevices_def)
  show ?thesis
    using p note_device_lookup [OF n d] note_device_cases(1) [OF n] device_vector.inv_hear [OF d]
      length_store_datagram [OF assms(2)]
    by (intro exI [of _ b'] exI [of _ fx]) (simp add: getDevices_def split: option.split)
qed

text \<open>
  C27. The first announcement may be wrong for good. \<open>start\<close> broadcasts before the receiver has
  looked for a free port, so the first datagram carries the configured port. A device that hears
  it enters that port, and because later announcements only refresh the time of a known device,
  it keeps the wrong port although every later announcement carries the port the receiver
  listens on.
\<close>

theorem stale_port:
  assumes "startNet env ga disk nt = (disk', Inr (True, nt', fx))"
    and "nt_discovery nt' = Some disc" and "nt_receiver nt' = Some rcv"
    and "cf_tcp_port (start_config nt) = Some port" and "getPort rcv \<noteq> port"
    and "env_send_ok (ne_udp env)" and "length (getDeviceName nt') \<le> 486"
    and "length (ds_buffer_incoming b) = BUFFER_MAX_SIZE" and "distinct_names (getDevices b)"
    and "ds_device_name b \<noteq> getDeviceName nt'" and "lookup_device (getDevices b) (getDeviceName nt') = None"
    and "env_local env1 = Some self" and "env_local env2 = Some self" and "sender \<noteq> self"
    and "env_send_ok env1" and "env_send_ok env2"
  shows "\<exists>m1 m2 b1 b2 fx1 fx2. NDiscovery (SendTo 0xFFFFFFFF UDP_DISCOVERY_PORT m1) \<in> set fx
    \<and> on_package env1 b None sender m1 = Inr (b1, fx1)
    \<and> sendBroadcast (ne_udp env) disc = [SendTo 0xFFFFFFFF UDP_DISCOVERY_PORT m2]
    \<and> on_package env2 b1 None sender m2 = Inr (b2, fx2)
    \<and> ds_tcp_port disc = getPort rcv
    \<and> lookup_device (getDevices b2) (getDeviceName nt')
        = Some (env_to_string env1 sender, port, env_now env2)"
proof (rule startNet_started [OF assms(1)])
  fix port' disk1 disc0 rcv' dfx rfx saved
  let ?new = "newDiscoveryService (cf_device_name (start_config nt)) port' (ga_udp ga)"
  assume port': "cf_tcp_port (start_config nt) = Some port'"
    and start: "startDiscovery (ne_udp env) ?new = (True, disc0, dfx)"
    and nt': "nt' = nt\<lparr>nt_config := (start_config nt)\<lparr>cf_tcp_port := Some (getPort rcv')\<rparr>,
        nt_discovery := Some (setTcpPort (getPort rcv') disc0), nt_receiver := Some rcv', nt_io_running := True\<rparr>"
    and fx: "fx = map NDiscovery dfx @ map NReceiver rfx @ [NRunIo]"
  let ?a = "?new\<lparr>ds_socket_open := True\<rparr>"
  have disc0: "disc0 = ?a" "dfx = listenForPackages @ sendBroadcast (ne_udp env) ?a @ startTimer"
    using startDiscovery_True [OF start] by simp_all
  have name: "getDeviceName nt' = ds_device_name ?a" by (simp add: nt' getDeviceName_def newDiscoveryService_def)
  have disc: "disc = setTcpPort (getPort rcv) ?a" "ds_tcp_port ?a = port"
    using assms(2-4) port' by (simp_all add: nt' disc0 newDiscoveryService_def)
  let ?m1 = "frame DISCOVERY_BROADCAST 0 (own_payload ?a)"
  have sent: "NDiscovery (SendTo 0xFFFFFFFF UDP_DISCOVERY_PORT ?m1) \<in> set fx"
    using assms(6) by (simp add: fx disc0 sendBroadcast_frame)
  obtain b1 fx1 where b1: "on_package env1 b None sender ?m1 = Inr (b1, fx1)"
      "length (ds_buffer_incoming b1) = BUFFER_MAX_SIZE" "ds_device_name b1 = ds_device_name b"
      "distinct_names (getDevices b1)"
      "lookup_device (getDevices b1) (ds_device_name ?a) = Some (env_to_string env1 sender, port, env_now env1)"
    using announcement_heard [of ?a b env1 self sender] assms(7-12,14,15) disc(2) name by auto
  have name2: "ds_device_name disc = ds_device_name ?a" by (simp add: disc setTcpPort_def)
  obtain b2 fx2 where "on_package env2 b1 None sender (frame DISCOVERY_BROADCAST 0 (own_payload disc)) = Inr (b2, fx2)"
      "lookup_device (getDevices b2) (ds_device_name disc) = Some (env_to_string env1 sender, port, env_now env2)"
    using announcement_heard [of disc b1 env2 self sender] assms(7,10,13,14,16) b1(2-5) name name2 by auto
  then show ?thesis
    using sent b1(1) assms(6) name name2 disc(1)
    by (intro exI [of _ ?m1] exI [of _ "frame DISCOVERY_BROADCAST 0 (own_payload disc)"] exI [of _ b1]
        exI [of _ b2] exI [of _ fx1] exI [of _ fx2]) (simp add: sendBroadcast_frame setTcpPort_def)
qed

theorem stale_port_witness:
  "\<exists>disk' nt' fx disc m1 m2 b1 b2 fx1 fx2.
     startNet sample_net_env sample_garbage Map.empty fresh_net = (disk', Inr (True, nt', fx))
   \<and> nt_discovery nt' = Some disc \<and> ds_tcp_port disc = 50002
   \<and> NDiscovery (SendTo 0xFFFFFFFF UDP_DISCOVERY_PORT m1) \<in> set fx
   \<and> on_package quiet_env node_b None 7 m1 = Inr (b1, fx1)
   \<and> sendBroadcast quiet_env disc = [SendTo 0xFFFFFFFF UDP_DISCOVERY_PORT m2]
   \<and> on_package quiet_env b1 None 7 m2 = Inr (b2, fx2)
   \<and> lookup_device (getDevices b2) [65] = Some ([0x31], 50001, 0)"
proof -
  obtain disk' nt' fx where s: "startNet sample_net_env sample_garbage Map.empty fresh_net = (disk', Inr (True, nt', fx))"
    "nt_receiver nt' = Some sample_receiver" using sample_start_True by blast
  obtain disc where disc: "nt_discovery nt' = Some disc" and name: "getDeviceName nt' = [65]"
    by (rule startNet_started [OF s(1)]) (simp add: getDeviceName_def start_config_def fresh_net_def)
  have "cf_tcp_port (start_config fresh_net) = Some 50001" by (simp add: start_config_def fresh_net_def)
  moreover have "getPort sample_receiver = 50002" by (simp add: getPort_def sample_receiver_def)
  moreover have "ne_udp sample_net_env = quiet_env" by (simp add: sample_net_env_def)
  moreover have "env_local quiet_env = Some 0" "env_send_ok quiet_env" "env_to_string quiet_env 7 = [0x31]"
    "env_now quiet_env = 0" by (simp_all add: quiet_env_def)
  moreover have "length (ds_buffer_incoming node_b) = BUFFER_MAX_SIZE" "getDevices node_b = []"
    "ds_device_name node_b = [0x62]"
    by (simp_all add: node_b_def newDiscoveryService_def getDevices_def)
  ultimately show ?thesis
    using stale_port [OF s(1) disc s(2), of 50001 node_b quiet_env 0 quiet_env 7] s disc name
    by (auto simp: distinct_names_def lookup_device_def)
qed

end
